theory Spec2Isabelle
  imports Main "HOL-Library.AList" "HOL-Library.Multiset"
begin

section \<open>Data model\<close>

text \<open>
  The two-tier cache service (\<^verbatim>\<open>cacheService.js\<close>) and the week data service
  (\<^verbatim>\<open>weekDataService.js\<close>). JavaScript numbers that hold week numbers, years and
  millisecond timestamps are integers here. Every \<^verbatim>\<open>async\<close> function is a state
  transformer: it takes the cache state and returns its result with the new state.
  \<^verbatim>\<open>Date.now()\<close>, the calendar year and the behaviour of Firestore during the call
  are the environment \<open>env\<close> of the call: the clock is read once per call,
  \<open>firestore\<close> tells whether \<^verbatim>\<open>getWeeksCollection()\<close> and \<^verbatim>\<open>getYearsCollection()\<close>
  give a collection, and \<open>fsThrows\<close> whether the Firestore operation of the call rejects.
  Where the source starts several tasks at once (\<^verbatim>\<open>Promise.all\<close>,
  \<^verbatim>\<open>Promise.allSettled\<close>), the tasks run here one after the other in the order of the
  array.
\<close>

text \<open>
  A cached object \<^verbatim>\<open>{...data, cachedAt, expiresAt}\<close>: the fields of the data and the
  two metadata fields. \<open>None\<close> is an absent or \<^verbatim>\<open>null\<close> field.
\<close>

record 'a cached =
  payload :: 'a
  cachedAt :: "int option"
  expiresAt :: "int option"

text \<open>The object built by \<^verbatim>\<open>generateWeekData\<close>; \<open>sections\<close> holds the dates and the
  four provider sections.\<close>

record 'c week_data =
  weekNumber :: int
  sections :: 'c

record cache_stats =
  l1Hits :: nat
  l2Hits :: nat
  misses :: nat
  writes :: nat

text \<open>The lines written with \<^verbatim>\<open>console.error\<close>.\<close>

datatype log_entry =
    ErrReadWeek int
  | ErrWriteWeek int
  | ErrReadYear int
  | ErrWriteYear int
  | ErrInvalidateWeek int
  | ErrClear
  | ErrWarm int "string option"
  | ErrCachedWeek int string
  | ErrUncachedWeek int string

record env =
  now :: int
  currentYear :: int
  firestore :: bool
  fsThrows :: bool

subsection \<open>Template literals\<close>

definition digit :: "nat \<Rightarrow> char" where
  "digit d = ''0123456789'' ! d"

fun showNat :: "nat \<Rightarrow> string" where
  "showNat n = (if n < 10 then [digit n] else showNat (n div 10) @ [digit (n mod 10)])"

declare showNat.simps [simp del]

definition showInt :: "int \<Rightarrow> string" where
  "showInt i = (if i < 0 then CHR ''-'' # showNat (nat (- i)) else showNat (nat i))"

definition weekKey :: "int \<Rightarrow> string" where
  "weekKey weekNum = ''week-'' @ showInt weekNum"

definition yearKey :: "int \<Rightarrow> string" where
  "yearKey year = ''year-'' @ showInt year"

section \<open>Hot tier\<close>

text \<open>
  Modelled from the spec: the \<^verbatim>\<open>LRUCache\<close> class of the \<^verbatim>\<open>lru-cache\<close> package, which
  is a dependency and not part of the sources. Section 4.2 of the specification: a bounded
  associative cache, least recently used entry evicted, access (read or write) refreshing
  recency, every entry carrying its own TTL, enforced independently of eviction. The
  entries are kept from the least recently used (head) to the most recently used (last).
  The options are those the source passes: \<^verbatim>\<open>max: 10\<close>, \<^verbatim>\<open>ttl: 1000 * 60 * 60\<close> and
  \<^verbatim>\<open>updateAgeOnGet: true\<close>. A TTL of \<open>None\<close> (\<^verbatim>\<open>null\<close>) or 0 never expires.
\<close>

record 'v lru_entry =
  ekey :: string
  evalue :: 'v
  estart :: int
  ettl :: "int option"

type_synonym 'v lru = "'v lru_entry list"

definition memoryCache_max :: nat where
  "memoryCache_max = 10"

definition memoryCache_ttl :: int where
  "memoryCache_ttl = 1000 * 60 * 60"

definition isStale :: "int \<Rightarrow> 'v lru_entry \<Rightarrow> bool" where
  "isStale t e = (case ettl e of None \<Rightarrow> False | Some d \<Rightarrow> d \<noteq> 0 \<and> t - estart e > d)"

definition lru_find :: "string \<Rightarrow> 'v lru \<Rightarrow> 'v lru_entry option" where
  "lru_find k c = find (\<lambda>e. ekey e = k) c"

definition lru_delete :: "string \<Rightarrow> 'v lru \<Rightarrow> 'v lru" where
  "lru_delete k c = filter (\<lambda>e. ekey e \<noteq> k) c"

definition lru_has :: "int \<Rightarrow> string \<Rightarrow> 'v lru \<Rightarrow> bool" where
  "lru_has t k c = (case lru_find k c of None \<Rightarrow> False | Some e \<Rightarrow> \<not> isStale t e)"

text \<open>A read of a live entry moves it to the most recent position and, with
  \<^verbatim>\<open>updateAgeOnGet\<close>, restarts its age; a read of a stale entry deletes it.\<close>

definition lru_get :: "int \<Rightarrow> string \<Rightarrow> 'v lru \<Rightarrow> 'v option \<times> 'v lru" where
  "lru_get t k c =
     (case lru_find k c of
        None \<Rightarrow> (None, c)
      | Some e \<Rightarrow>
          if isStale t e then (None, lru_delete k c)
          else (Some (evalue e), lru_delete k c @ [e\<lparr>estart := t\<rparr>]))"

text \<open>A write of a present key replaces the entry and makes it the most recent; a write
  of a new key into a full cache evicts the head first.\<close>

definition lru_set :: "int \<Rightarrow> string \<Rightarrow> 'v \<Rightarrow> int option \<Rightarrow> 'v lru \<Rightarrow> 'v lru" where
  "lru_set t k v ttl c =
     (let e = \<lparr>ekey = k, evalue = v, estart = t, ettl = ttl\<rparr> in
      case lru_find k c of
        Some _ \<Rightarrow> lru_delete k c @ [e]
      | None \<Rightarrow> (if length c < memoryCache_max then c else tl c) @ [e])"

definition lru_clear :: "'v lru \<Rightarrow> 'v lru" where
  "lru_clear c = []"

definition lru_size :: "'v lru \<Rightarrow> nat" where
  "lru_size c = length c"

definition lru_keys :: "'v lru \<Rightarrow> string list" where
  "lru_keys c = map ekey c"

text \<open>The operations of the hot tier, to run a sequence of them.\<close>

datatype 'v lru_op =
    OpHas int string
  | OpGet int string
  | OpSet int string 'v "int option"
  | OpDelete string
  | OpClear

fun lru_step :: "'v lru \<Rightarrow> 'v lru_op \<Rightarrow> 'v lru" where
  "lru_step c (OpHas t k) = c"
| "lru_step c (OpGet t k) = snd (lru_get t k c)"
| "lru_step c (OpSet t k v ttl) = lru_set t k v ttl c"
| "lru_step c (OpDelete k) = lru_delete k c"
| "lru_step c OpClear = lru_clear c"

definition lru_run :: "'v lru_op list \<Rightarrow> 'v lru \<Rightarrow> 'v lru" where
  "lru_run ops c = foldl lru_step c ops"

section \<open>Cache service\<close>

record 'a cache_state =
  memoryCache :: "'a cached lru"
  stats :: cache_stats
  weeksDocs :: "(string \<times> 'a cached) list"
  yearsDocs :: "(string \<times> 'a cached) list"
  errorLog :: "log_entry list"

text \<open>JavaScript truthiness of a number that may be \<^verbatim>\<open>null\<close>: \<^verbatim>\<open>null\<close> and 0 are falsy.\<close>

definition truthy :: "int option \<Rightarrow> bool" where
  "truthy x = (case x of None \<Rightarrow> False | Some n \<Rightarrow> n \<noteq> 0)"

definition getTTL :: "int \<Rightarrow> int option" where
  "getTTL weekNum =
     (if weekNum = 0 then Some (3600 * 1000)
      else if weekNum \<le> 4 then Some (24 * 3600 * 1000)
      else if weekNum \<le> 52 then Some (7 * 24 * 3600 * 1000)
      else None)"

definition isExpired :: "int \<Rightarrow> 'a cached \<Rightarrow> bool" where
  "isExpired t cachedData =
     (if \<not> truthy (expiresAt cachedData) then False
      else t > the (expiresAt cachedData))"

definition countL1Hit :: "'a cache_state \<Rightarrow> 'a cache_state" where
  "countL1Hit s = s\<lparr>stats := (stats s)\<lparr>l1Hits := l1Hits (stats s) + 1\<rparr>\<rparr>"

definition countL2Hit :: "'a cache_state \<Rightarrow> 'a cache_state" where
  "countL2Hit s = s\<lparr>stats := (stats s)\<lparr>l2Hits := l2Hits (stats s) + 1\<rparr>\<rparr>"

definition countMiss :: "'a cache_state \<Rightarrow> 'a cache_state" where
  "countMiss s = s\<lparr>stats := (stats s)\<lparr>misses := misses (stats s) + 1\<rparr>\<rparr>"

definition countWrite :: "'a cache_state \<Rightarrow> 'a cache_state" where
  "countWrite s = s\<lparr>stats := (stats s)\<lparr>writes := writes (stats s) + 1\<rparr>\<rparr>"

definition logError :: "log_entry \<Rightarrow> 'a cache_state \<Rightarrow> 'a cache_state" where
  "logError l s = s\<lparr>errorLog := errorLog s @ [l]\<rparr>"

definition getWeekFromCache ::
  "env \<Rightarrow> int \<Rightarrow> 'a cache_state \<Rightarrow> 'a cached option \<times> 'a cache_state" where
  "getWeekFromCache e weekNum s =
     (let cacheKey = weekKey weekNum in
      if lru_has (now e) cacheKey (memoryCache s) then
        (let s1 = countL1Hit s;
             (v, c) = lru_get (now e) cacheKey (memoryCache s1)
         in (v, s1\<lparr>memoryCache := c\<rparr>))
      else if \<not> firestore e then (None, countMiss s)
      else if fsThrows e then (None, countMiss (logError (ErrReadWeek weekNum) s))
      else
        (case map_of (weeksDocs s) cacheKey of
           Some data \<Rightarrow>
             if isExpired (now e) data then (None, countMiss s)
             else
               (let s1 = countL2Hit s in
                (Some data,
                 s1\<lparr>memoryCache :=
                      lru_set (now e) cacheKey data (Some memoryCache_ttl) (memoryCache s1)\<rparr>))
         | None \<Rightarrow> (None, countMiss s)))"

definition setWeekInCache :: "env \<Rightarrow> int \<Rightarrow> 'a cached \<Rightarrow> 'a cache_state \<Rightarrow> 'a cache_state" where
  "setWeekInCache e weekNum data s =
     (let cacheKey = weekKey weekNum;
          ttl = getTTL weekNum;
          cachedData = data\<lparr>cachedAt := Some (now e),
                            expiresAt := (if truthy ttl then Some (now e + the ttl) else None)\<rparr>;
          s1 = s\<lparr>memoryCache := lru_set (now e) cacheKey cachedData ttl (memoryCache s)\<rparr>
      in if firestore e then
           (if fsThrows e then logError (ErrWriteWeek weekNum) s1
            else countWrite (s1\<lparr>weeksDocs := AList.update cacheKey cachedData (weeksDocs s1)\<rparr>))
         else s1)"

definition getYearFromCache ::
  "env \<Rightarrow> int \<Rightarrow> 'a cache_state \<Rightarrow> 'a cached option \<times> 'a cache_state" where
  "getYearFromCache e year s =
     (let cacheKey = yearKey year in
      if lru_has (now e) cacheKey (memoryCache s) then
        (let s1 = countL1Hit s;
             (v, c) = lru_get (now e) cacheKey (memoryCache s1)
         in (v, s1\<lparr>memoryCache := c\<rparr>))
      else if \<not> firestore e then (None, countMiss s)
      else if fsThrows e then (None, countMiss (logError (ErrReadYear year) s))
      else
        (case map_of (yearsDocs s) cacheKey of
           Some data \<Rightarrow>
             (let ttl = (if year = currentYear e then Some (24 * 3600 * 1000) else None) in
              if truthy (expiresAt data) \<and> now e > the (expiresAt data) then (None, countMiss s)
              else
                (let s1 = countL2Hit s in
                 (Some data,
                  s1\<lparr>memoryCache := lru_set (now e) cacheKey data ttl (memoryCache s1)\<rparr>)))
         | None \<Rightarrow> (None, countMiss s)))"

definition setYearInCache :: "env \<Rightarrow> int \<Rightarrow> 'a cached \<Rightarrow> 'a cache_state \<Rightarrow> 'a cache_state" where
  "setYearInCache e year data s =
     (let cacheKey = yearKey year;
          ttl = (if year = currentYear e then Some (24 * 3600 * 1000) else None);
          cachedData = data\<lparr>cachedAt := Some (now e),
                            expiresAt := (if truthy ttl then Some (now e + the ttl) else None)\<rparr>;
          s1 = s\<lparr>memoryCache := lru_set (now e) cacheKey cachedData ttl (memoryCache s)\<rparr>
      in if firestore e then
           (if fsThrows e then logError (ErrWriteYear year) s1
            else countWrite (s1\<lparr>yearsDocs := AList.update cacheKey cachedData (yearsDocs s1)\<rparr>))
         else s1)"

definition invalidateWeek :: "env \<Rightarrow> int \<Rightarrow> 'a cache_state \<Rightarrow> 'a cache_state" where
  "invalidateWeek e weekNum s =
     (let cacheKey = weekKey weekNum;
          s1 = s\<lparr>memoryCache := lru_delete cacheKey (memoryCache s)\<rparr>
      in if firestore e then
           (if fsThrows e then logError (ErrInvalidateWeek weekNum) s1
            else s1\<lparr>weeksDocs := AList.delete cacheKey (weeksDocs s1)\<rparr>)
         else s1)"

text \<open>
  \<^verbatim>\<open>clearAllCache\<close> reads the whole weeks collection, puts one delete per document of
  the snapshot into a single write batch and commits it. \<open>clearBatch\<close> is that batch;
  the commit applies its deletes. The years collection is not read.
\<close>

definition clearBatch :: "(string \<times> 'a cached) list \<Rightarrow> string list" where
  "clearBatch snapshot = map fst snapshot"

definition commitDeletes :: "string list \<Rightarrow> (string \<times> 'a cached) list \<Rightarrow> (string \<times> 'a cached) list" where
  "commitDeletes batch docs = foldl (\<lambda>d k. AList.delete k d) docs batch"

definition clearAllCache :: "env \<Rightarrow> 'a cache_state \<Rightarrow> 'a cache_state" where
  "clearAllCache e s =
     (let s1 = s\<lparr>memoryCache := lru_clear (memoryCache s)\<rparr> in
      if firestore e then
        (if fsThrows e then logError ErrClear s1
         else
           (let snapshot = weeksDocs s1;
                batch = clearBatch snapshot
            in s1\<lparr>weeksDocs := commitDeletes batch (weeksDocs s1)\<rparr>))
      else s1)"

subsection \<open>Cache warming\<close>

text \<open>
  \<^verbatim>\<open>warmCache\<close> starts one task per week number and waits for all of them with
  \<^verbatim>\<open>Promise.allSettled\<close>. Here the tasks run one after the other in the order of the
  array, each to its end. \<open>fetchWeekFn\<close> may itself use the cache, so it takes and
  returns the state, and it may reject: with \<^verbatim>\<open>null\<close> or \<^verbatim>\<open>undefined\<close> (\<open>Nullish\<close>), or
  with any other value, whose \<^verbatim>\<open>message\<close> property is read as a string or as
  \<^verbatim>\<open>undefined\<close> (\<open>NonNullish\<close>). The \<^verbatim>\<open>catch\<close> block of a task reads \<^verbatim>\<open>error.message\<close>
  before it logs: on a nullish value that read throws a \<^verbatim>\<open>TypeError\<close>, nothing is
  logged and the task is rejected; otherwise the task is fulfilled with the status
  \<^verbatim>\<open>error\<close>. Beside the state, a task gives the list of week numbers on which it called
  \<open>fetchWeekFn\<close>.
\<close>

datatype thrown = Nullish | NonNullish "string option"

datatype warm_status = StatusCached | StatusWarmed | StatusError "string option"

datatype 'r settled = Fulfilled 'r | Rejected string

text \<open>What \<^verbatim>\<open>warmCache\<close> logs at the end: the elapsed time (kept in milliseconds here)
  and the numbers of fulfilled and of rejected tasks.\<close>

record warm_log =
  elapsed :: int
  successful :: nat
  failed :: nat

text \<open>
  The value a JavaScript function returns: \<^verbatim>\<open>undefined\<close> when it ends without a
  \<^verbatim>\<open>return\<close> statement. \<open>warm_summary\<close> is the summary of section 4.5 of the
  specification (counts of already cached, freshly warmed and failed keys, and the elapsed
  time); \<^verbatim>\<open>warmCache\<close> is declared \<^verbatim>\<open>Promise<void>\<close> and builds no such value.
\<close>

datatype 'r js_return = Undefined | Returned 'r

record warm_summary =
  alreadyCached :: nat
  freshlyWarmed :: nat
  failedKeys :: nat
  elapsedTime :: int

definition warmTask ::
  "(int \<Rightarrow> 'a cache_state \<Rightarrow> (thrown + 'a cached) \<times> 'a cache_state) \<Rightarrow> env \<Rightarrow> int \<Rightarrow>
   'a cache_state \<Rightarrow> (int \<times> warm_status) settled \<times> int list \<times> 'a cache_state" where
  "warmTask fetchWeekFn e weekNum s =
     (case getWeekFromCache e weekNum s of
        (Some cached, s1) \<Rightarrow> (Fulfilled (weekNum, StatusCached), [], s1)
      | (None, s1) \<Rightarrow>
          (case fetchWeekFn weekNum s1 of
             (Inr data, s2) \<Rightarrow>
               (Fulfilled (weekNum, StatusWarmed), [weekNum], setWeekInCache e weekNum data s2)
           | (Inl Nullish, s2) \<Rightarrow> (Rejected ''TypeError'', [weekNum], s2)
           | (Inl (NonNullish msg), s2) \<Rightarrow>
               (Fulfilled (weekNum, StatusError msg), [weekNum],
                logError (ErrWarm weekNum msg) s2)))"

fun warmTasks ::
  "(int \<Rightarrow> 'a cache_state \<Rightarrow> (thrown + 'a cached) \<times> 'a cache_state) \<Rightarrow> (int \<Rightarrow> env) \<Rightarrow> int list \<Rightarrow>
   'a cache_state \<Rightarrow> (int \<times> warm_status) settled list \<times> int list \<times> 'a cache_state" where
  "warmTasks fetchWeekFn envOf [] s = ([], [], s)"
| "warmTasks fetchWeekFn envOf (weekNum # rest) s =
     (let (r, calls, s1) = warmTask fetchWeekFn (envOf weekNum) weekNum s;
          (rs, calls', s2) = warmTasks fetchWeekFn envOf rest s1
      in (r # rs, calls @ calls', s2))"

definition isFulfilled :: "'r settled \<Rightarrow> bool" where
  "isFulfilled r = (case r of Fulfilled _ \<Rightarrow> True | Rejected _ \<Rightarrow> False)"

definition isRejected :: "'r settled \<Rightarrow> bool" where
  "isRejected r = (case r of Fulfilled _ \<Rightarrow> False | Rejected _ \<Rightarrow> True)"

text \<open>The result is the returned value, the logged line, the settled tasks, the calls of
  \<open>fetchWeekFn\<close> and the state.\<close>

definition warmCache ::
  "(int \<Rightarrow> 'a cache_state \<Rightarrow> (thrown + 'a cached) \<times> 'a cache_state) \<Rightarrow> (int \<Rightarrow> env) \<Rightarrow> int \<Rightarrow> int \<Rightarrow>
   int list \<Rightarrow> 'a cache_state \<Rightarrow>
   warm_summary js_return \<times> warm_log \<times> (int \<times> warm_status) settled list \<times> int list \<times> 'a cache_state" where
  "warmCache fetchWeekFn envOf startTime endTime weekNumbers s =
     (let (results, calls, s1) = warmTasks fetchWeekFn envOf weekNumbers s;
          lg = \<lparr>elapsed = endTime - startTime,
                successful = length (filter isFulfilled results),
                failed = length (filter isRejected results)\<rparr>
      in (Undefined, lg, results, calls, s1))"

text \<open>The status of a settled task, and the number of tasks with a given kind of status.\<close>

fun statusOf :: "(int \<times> warm_status) settled \<Rightarrow> warm_status option" where
  "statusOf (Fulfilled (k, st)) = Some st"
| "statusOf (Rejected m) = None"

definition isCachedStatus :: "(int \<times> warm_status) settled \<Rightarrow> bool" where
  "isCachedStatus r = (statusOf r = Some StatusCached)"

definition isWarmedStatus :: "(int \<times> warm_status) settled \<Rightarrow> bool" where
  "isWarmedStatus r = (statusOf r = Some StatusWarmed)"

definition isErrorStatus :: "(int \<times> warm_status) settled \<Rightarrow> bool" where
  "isErrorStatus r = (case statusOf r of Some (StatusError m) \<Rightarrow> True | _ \<Rightarrow> False)"

text \<open>The week numbers whose task did not end with the status \<^verbatim>\<open>cached\<close>.\<close>

definition notCachedKeys :: "int list \<Rightarrow> (int \<times> warm_status) settled list \<Rightarrow> int list" where
  "notCachedKeys ks rs = map fst (filter (\<lambda>(k, r). \<not> isCachedStatus r) (zip ks rs))"

section \<open>Week data service\<close>

text \<open>
  \<open>sources\<close> stands for \<^verbatim>\<open>getWeekDates\<close> and the four provider services that
  \<^verbatim>\<open>generateWeekData\<close> awaits together: the sections of the week, or the message of
  the error raised.
\<close>

definition generateWeekData ::
  "(int \<Rightarrow> string + 'c) \<Rightarrow> env \<Rightarrow> int \<Rightarrow> 'c week_data cache_state \<Rightarrow>
   (string + 'c week_data cached) \<times> 'c week_data cache_state" where
  "generateWeekData sources e weekNum s =
     (case getWeekFromCache e weekNum s of
        (Some cached, s1) \<Rightarrow> (Inr cached, s1)
      | (None, s1) \<Rightarrow>
          (case sources weekNum of
             Inl err \<Rightarrow> (Inl err, s1)
           | Inr c \<Rightarrow>
               (let weekData = \<lparr>payload = \<lparr>weekNumber = weekNum, sections = c\<rparr>,
                                 cachedAt = None, expiresAt = None\<rparr>
                in (Inr weekData, setWeekInCache e weekNum weekData s1))))"

text \<open>The probes of \<^verbatim>\<open>checkCacheStatus\<close>, in the order of the array; the source
  pushes each week number when its probe completes.\<close>

fun checkCacheStatus ::
  "(int \<Rightarrow> env) \<Rightarrow> int list \<Rightarrow> 'a cache_state \<Rightarrow> (int list \<times> int list) \<times> 'a cache_state" where
  "checkCacheStatus envOf [] s = (([], []), s)"
| "checkCacheStatus envOf (weekNum # rest) s =
     (let (cachedData, s1) = getWeekFromCache (envOf weekNum) weekNum s;
          ((cached, uncached), s2) = checkCacheStatus envOf rest s1
      in (if cachedData \<noteq> None then (weekNum # cached, uncached)
          else (cached, weekNum # uncached), s2))"

text \<open>The cached subset: one task per week, a failure gives \<^verbatim>\<open>null\<close>.\<close>

fun generateCached ::
  "(int \<Rightarrow> string + 'c) \<Rightarrow> (int \<Rightarrow> env) \<Rightarrow> int list \<Rightarrow> 'c week_data cache_state \<Rightarrow>
   'c week_data cached option list \<times> 'c week_data cache_state" where
  "generateCached sources envOf [] s = ([], s)"
| "generateCached sources envOf (weekNum # rest) s =
     (case generateWeekData sources (envOf weekNum) weekNum s of
        (Inr w, s1) \<Rightarrow>
          (let (ws, s2) = generateCached sources envOf rest s1 in (Some w # ws, s2))
      | (Inl err, s1) \<Rightarrow>
          (let (ws, s2) = generateCached sources envOf rest (logError (ErrCachedWeek weekNum err) s1)
           in (None # ws, s2)))"

text \<open>The uncached subset: the \<^verbatim>\<open>for\<close> loop, pushing each week it gets.\<close>

fun generateUncached ::
  "(int \<Rightarrow> string + 'c) \<Rightarrow> (int \<Rightarrow> env) \<Rightarrow> 'c week_data cached list \<Rightarrow> int list \<Rightarrow>
   'c week_data cache_state \<Rightarrow> 'c week_data cached list \<times> 'c week_data cache_state" where
  "generateUncached sources envOf weeks [] s = (weeks, s)"
| "generateUncached sources envOf weeks (weekNum # rest) s =
     (case generateWeekData sources (envOf weekNum) weekNum s of
        (Inr weekData, s1) \<Rightarrow> generateUncached sources envOf (weeks @ [weekData]) rest s1
      | (Inl err, s1) \<Rightarrow>
          generateUncached sources envOf weeks rest (logError (ErrUncachedWeek weekNum err) s1))"

definition filterBoolean :: "'x option list \<Rightarrow> 'x list" where
  "filterBoolean xs = map the (filter (\<lambda>x. x \<noteq> None) xs)"

definition weekWindow :: "nat \<Rightarrow> int \<Rightarrow> int list" where
  "weekWindow cnt offset = map (\<lambda>i. offset + int i) [0..<cnt]"

definition generateWeeks ::
  "(int \<Rightarrow> string + 'c) \<Rightarrow> (int \<Rightarrow> env) \<Rightarrow> (int \<Rightarrow> env) \<Rightarrow> (int \<Rightarrow> env) \<Rightarrow> nat \<Rightarrow> int \<Rightarrow>
   'c week_data cache_state \<Rightarrow> 'c week_data cached list \<times> 'c week_data cache_state" where
  "generateWeeks sources probeEnv cachedEnv uncachedEnv cnt offset s =
     (let weekNumbers = weekWindow cnt offset;
          ((cached, uncached), s1) = checkCacheStatus probeEnv weekNumbers s;
          (weeks1, s2) =
            (if length cached > 0 then
               (let (cachedWeeks, s') = generateCached sources cachedEnv cached s1
                in ([] @ filterBoolean cachedWeeks, s'))
             else ([], s1));
          (weeks2, s3) =
            (if length uncached > 0 then generateUncached sources uncachedEnv weeks1 uncached s2
             else (weeks1, s2))
      in (sort_key (\<lambda>a. weekNumber (payload a)) weeks2, s3))"

text \<open>
  The outcome of fetching each week of a list in turn: the week number with the record
  or the error message of \<^verbatim>\<open>generateWeekData\<close>, in the state the loops of
  \<^verbatim>\<open>generateWeeks\<close> reach. It is used to state which records \<^verbatim>\<open>generateWeeks\<close> returns.
\<close>

fun fetchOutcomes ::
  "(int \<Rightarrow> string + 'c) \<Rightarrow> (int \<Rightarrow> env) \<Rightarrow> (int \<Rightarrow> string \<Rightarrow> log_entry) \<Rightarrow> int list \<Rightarrow>
   'c week_data cache_state \<Rightarrow> (int \<times> (string + 'c week_data cached)) list" where
  "fetchOutcomes sources envOf lg [] s = []"
| "fetchOutcomes sources envOf lg (k # ks) s =
     (case generateWeekData sources (envOf k) k s of
        (Inr w, s1) \<Rightarrow> (k, Inr w) # fetchOutcomes sources envOf lg ks s1
      | (Inl err, s1) \<Rightarrow> (k, Inl err) # fetchOutcomes sources envOf lg ks (logError (lg k err) s1))"

fun fetchFinal ::
  "(int \<Rightarrow> string + 'c) \<Rightarrow> (int \<Rightarrow> env) \<Rightarrow> (int \<Rightarrow> string \<Rightarrow> log_entry) \<Rightarrow> int list \<Rightarrow>
   'c week_data cache_state \<Rightarrow> 'c week_data cache_state" where
  "fetchFinal sources envOf lg [] s = s"
| "fetchFinal sources envOf lg (k # ks) s =
     (case generateWeekData sources (envOf k) k s of
        (Inr w, s1) \<Rightarrow> fetchFinal sources envOf lg ks s1
      | (Inl err, s1) \<Rightarrow> fetchFinal sources envOf lg ks (logError (lg k err) s1))"

definition succeeded :: "(int \<times> (string + 'r)) list \<Rightarrow> 'r list" where
  "succeeded outs = [r. (k, Inr r) \<leftarrow> outs]"

section \<open>Example states\<close>

definition zeroStats :: cache_stats where
  "zeroStats = \<lparr>l1Hits = 0, l2Hits = 0, misses = 0, writes = 0\<rparr>"

definition emptyCache :: "'a cache_state" where
  "emptyCache = \<lparr>memoryCache = [], stats = zeroStats, weeksDocs = [], yearsDocs = [], errorLog = []\<rparr>"

text \<open>Firestore reachable, unconfigured, and failing, at time \<open>t\<close> of the year 2025.\<close>

definition envAt :: "int \<Rightarrow> env" where
  "envAt t = \<lparr>now = t, currentYear = 2025, firestore = True, fsThrows = False\<rparr>"

definition envDown :: "int \<Rightarrow> env" where
  "envDown t = \<lparr>now = t, currentYear = 2025, firestore = False, fsThrows = False\<rparr>"

definition envThrows :: "int \<Rightarrow> env" where
  "envThrows t = \<lparr>now = t, currentYear = 2025, firestore = True, fsThrows = True\<rparr>"

definition freshData :: "unit cached" where
  "freshData = \<lparr>payload = (), cachedAt = None, expiresAt = None\<rparr>"

definition docExpiring :: "int option \<Rightarrow> unit cached" where
  "docExpiring x = \<lparr>payload = (), cachedAt = Some 1, expiresAt = x\<rparr>"

definition durableWeek :: "int \<Rightarrow> int option \<Rightarrow> unit cache_state" where
  "durableWeek k x = emptyCache\<lparr>weeksDocs := [(weekKey k, docExpiring x)]\<rparr>"

definition durableYear :: "int \<Rightarrow> int option \<Rightarrow> unit cache_state" where
  "durableYear y x = emptyCache\<lparr>yearsDocs := [(yearKey y, docExpiring x)]\<rparr>"

text \<open>Week 0 written at time 0 and read half an hour later.\<close>

definition week0ReadOnce :: "unit cache_state" where
  "week0ReadOnce = snd (getWeekFromCache (envAt 1800000) 0 (setWeekInCache (envAt 0) 0 freshData emptyCache))"

text \<open>A write into the hot tier, as time, key, value and TTL, and the keys
  \<^verbatim>\<open>k0\<close> to \<^verbatim>\<open>k10\<close> written at the times 0 to 10.\<close>

fun setOp :: "int \<times> string \<times> 'v \<times> int option \<Rightarrow> 'v lru_op" where
  "setOp (t, k, v, ttl) = OpSet t k v ttl"

fun insKey :: "int \<times> string \<times> 'v \<times> int option \<Rightarrow> string" where
  "insKey (t, k, v, ttl) = k"

definition writeAt :: "nat \<Rightarrow> int \<times> string \<times> unit \<times> int option" where
  "writeAt i = (int i, CHR ''k'' # showNat i, (), Some memoryCache_ttl)"

text \<open>Two week documents and the document of the year 2024 in the durable tier, the
  year also in the hot tier.\<close>

definition weeksAndYear :: "unit cache_state" where
  "weeksAndYear =
     emptyCache\<lparr>memoryCache := [\<lparr>ekey = yearKey 2024, evalue = docExpiring None, estart = 0, ettl = None\<rparr>],
                weeksDocs := [(weekKey 1, docExpiring (Some 86400000)), (weekKey 2, docExpiring (Some 86400000))],
                yearsDocs := [(yearKey 2024, docExpiring None)]\<rparr>"

text \<open>A \<open>fetchWeekFn\<close> that returns fresh data, and one that rejects: with an error
  carrying a message for week 2, with \<^verbatim>\<open>undefined\<close> for any other week.\<close>

definition freshFetch :: "int \<Rightarrow> unit cache_state \<Rightarrow> (thrown + unit cached) \<times> unit cache_state" where
  "freshFetch weekNum s = (Inr freshData, s)"

definition rejectingFetch :: "int \<Rightarrow> unit cache_state \<Rightarrow> (thrown + unit cached) \<times> unit cache_state" where
  "rejectingFetch weekNum s =
     (if weekNum = 2 then (Inl (NonNullish (Some ''boom'')), s) else (Inl Nullish, s))"

text \<open>The result of a settled fetch as \<^verbatim>\<open>Promise.all\<close> sees it: the record, or \<^verbatim>\<open>null\<close>.\<close>

fun outcomeValue :: "int \<times> (string + 'r) \<Rightarrow> 'r option" where
  "outcomeValue (k, Inr r) = Some r"
| "outcomeValue (k, Inl err) = None"

text \<open>Provider sources that fail for week 2 only, and the log entries of the two loops.\<close>

definition sourcesFailing2 :: "int \<Rightarrow> string + unit" where
  "sourcesFailing2 weekNum = (if weekNum = 2 then Inl ''rate limited'' else Inr ())"

definition weekOneStored :: "unit week_data cache_state" where
  "weekOneStored =
     emptyCache\<lparr>weeksDocs :=
       [(weekKey 1, \<lparr>payload = \<lparr>weekNumber = 1, sections = ()\<rparr>, cachedAt = Some 1, expiresAt = None\<rparr>)]\<rparr>"

section \<open>Evaluation and the hot tier's lookup\<close>

lemmas key_eval = weekKey_def yearKey_def showInt_def showNat.simps digit_def

lemmas example_eval = zeroStats_def emptyCache_def envAt_def envDown_def
  freshData_def docExpiring_def durableWeek_def

lemmas lru_eval = lru_has_def lru_find_def lru_get_def lru_set_def lru_delete_def
  isStale_def memoryCache_max_def memoryCache_ttl_def

lemmas cache_eval = getWeekFromCache_def getYearFromCache_def setWeekInCache_def setYearInCache_def
  countL1Hit_def countL2Hit_def countMiss_def countWrite_def logError_def isExpired_def truthy_def
  getTTL_def Let_def

lemma lru_find_delete [simp]: "lru_find k (lru_delete k c) = None"
  by (induction c) (auto simp: lru_find_def lru_delete_def)

lemma lru_find_append:
  "lru_find k (c @ d) = (case lru_find k c of None \<Rightarrow> lru_find k d | Some e \<Rightarrow> Some e)"
  by (induction c) (auto simp: lru_find_def)

lemma lru_find_tl: "lru_find k c = None \<Longrightarrow> lru_find k (tl c) = None"
  by (cases c) (auto simp: lru_find_def split: if_splits)

lemma lru_find_set_same:
  "lru_find k (lru_set t k v ttl c) = Some \<lparr>ekey = k, evalue = v, estart = t, ettl = ttl\<rparr>"
  by (auto simp: lru_set_def Let_def lru_find_append lru_find_tl split: option.splits)
     (simp_all add: lru_find_def)

section \<open>Promotion on a durable hit\<close>

lemma getWeek_durable_hit:
  assumes "\<not> lru_has (now e) (weekKey n) (memoryCache s)" "firestore e" "\<not> fsThrows e"
    "map_of (weeksDocs s) (weekKey n) = Some d" "\<not> isExpired (now e) d"
  shows "getWeekFromCache e n s =
     (Some d, s\<lparr>stats := (stats s)\<lparr>l2Hits := l2Hits (stats s) + 1\<rparr>,
               memoryCache := lru_set (now e) (weekKey n) d (Some 3600000) (memoryCache s)\<rparr>)"
  using assms by (simp add: getWeekFromCache_def Let_def countL2Hit_def memoryCache_ttl_def)

lemma getYear_durable_hit:
  assumes "\<not> lru_has (now e) (yearKey y) (memoryCache s)" "firestore e" "\<not> fsThrows e"
    "map_of (yearsDocs s) (yearKey y) = Some d" "\<not> isExpired (now e) d"
  shows "getYearFromCache e y s =
     (Some d, s\<lparr>stats := (stats s)\<lparr>l2Hits := l2Hits (stats s) + 1\<rparr>,
               memoryCache := lru_set (now e) (yearKey y) d
                  (if y = currentYear e then Some 86400000 else None) (memoryCache s)\<rparr>)"
  using assms by (auto simp add: getYearFromCache_def Let_def countL2Hit_def isExpired_def)

text \<open>
  C1, as stated: a durable hit promotes the record with the TTL of the age-tiered policy.
  It fails for week 3: the document of week 3 is found unexpired in the durable tier at
  time 1000, it is returned, and its hot tier entry gets a TTL of one hour, where the policy
  gives week 3 twenty-four hours.
\<close>

theorem week_promotion_ttl_counterexample:
  "\<not> lru_has 1000 (weekKey 3) (memoryCache (durableWeek 3 (Some 86400001))) \<and>
   fst (getWeekFromCache (envAt 1000) 3 (durableWeek 3 (Some 86400001))) = Some (docExpiring (Some 86400001)) \<and>
   map ettl (memoryCache (snd (getWeekFromCache (envAt 1000) 3 (durableWeek 3 (Some 86400001))))) = [Some 3600000] \<and>
   getTTL 3 = Some 86400000 \<and>
   map ettl (memoryCache (snd (getWeekFromCache (envAt 1000) 3 (durableWeek 3 (Some 86400001))))) \<noteq> [getTTL 3]"
  by (simp add: key_eval example_eval lru_eval cache_eval)

text \<open>
  C1, amended: a lookup that misses the hot tier and finds an unexpired document in the
  durable tier counts a durable hit, returns the document and promotes it into the hot
  tier. A week document is promoted with the hot tier's default TTL of one hour, whatever
  its week number; a year document with the TTL computed at the lookup, 24 hours for the
  current year and none for any other year.
\<close>

theorem durable_hit_promotes:
  assumes "firestore e" and "\<not> fsThrows e" and "\<not> isExpired (now e) d"
  shows
    "(\<not> lru_has (now e) (weekKey n) (memoryCache s) \<and> map_of (weeksDocs s) (weekKey n) = Some d \<longrightarrow>
        getWeekFromCache e n s =
          (Some d, s\<lparr>stats := (stats s)\<lparr>l2Hits := l2Hits (stats s) + 1\<rparr>,
                    memoryCache := lru_set (now e) (weekKey n) d (Some 3600000) (memoryCache s)\<rparr>) \<and>
        lru_find (weekKey n) (memoryCache (snd (getWeekFromCache e n s))) =
          Some \<lparr>ekey = weekKey n, evalue = d, estart = now e, ettl = Some 3600000\<rparr>) \<and>
     (\<not> lru_has (now e) (yearKey y) (memoryCache s) \<and> map_of (yearsDocs s) (yearKey y) = Some d \<longrightarrow>
        getYearFromCache e y s =
          (Some d, s\<lparr>stats := (stats s)\<lparr>l2Hits := l2Hits (stats s) + 1\<rparr>,
                    memoryCache := lru_set (now e) (yearKey y) d
                       (if y = currentYear e then Some 86400000 else None) (memoryCache s)\<rparr>) \<and>
        lru_find (yearKey y) (memoryCache (snd (getYearFromCache e y s))) =
          Some \<lparr>ekey = yearKey y, evalue = d, estart = now e,
                ettl = (if y = currentYear e then Some 86400000 else None)\<rparr>)"
proof (intro conjI impI)
  assume h: "\<not> lru_has (now e) (weekKey n) (memoryCache s) \<and> map_of (weeksDocs s) (weekKey n) = Some d"
  with assms show w: "getWeekFromCache e n s =
          (Some d, s\<lparr>stats := (stats s)\<lparr>l2Hits := l2Hits (stats s) + 1\<rparr>,
                    memoryCache := lru_set (now e) (weekKey n) d (Some 3600000) (memoryCache s)\<rparr>)"
    by (simp add: getWeek_durable_hit)
  show "lru_find (weekKey n) (memoryCache (snd (getWeekFromCache e n s))) =
          Some \<lparr>ekey = weekKey n, evalue = d, estart = now e, ettl = Some 3600000\<rparr>"
    by (simp add: w lru_find_set_same)
next
  assume h: "\<not> lru_has (now e) (yearKey y) (memoryCache s) \<and> map_of (yearsDocs s) (yearKey y) = Some d"
  with assms show w: "getYearFromCache e y s =
          (Some d, s\<lparr>stats := (stats s)\<lparr>l2Hits := l2Hits (stats s) + 1\<rparr>,
                    memoryCache := lru_set (now e) (yearKey y) d
                       (if y = currentYear e then Some 86400000 else None) (memoryCache s)\<rparr>)"
    by (simp add: getYear_durable_hit)
  show "lru_find (yearKey y) (memoryCache (snd (getYearFromCache e y s))) =
          Some \<lparr>ekey = yearKey y, evalue = d, estart = now e,
                ettl = (if y = currentYear e then Some 86400000 else None)\<rparr>"
    by (simp add: w lru_find_set_same)
qed

text \<open>Week 3 and the current year 2025, each found unexpired in the durable tier at time
  1000: the week is promoted for one hour, the year for 24 hours.\<close>

theorem durable_hit_promotes_witness:
  "firestore (envAt 1000) \<and> \<not> fsThrows (envAt 1000) \<and>
   \<not> isExpired (now (envAt 1000)) (docExpiring (Some 86400001)) \<and>
   \<not> lru_has (now (envAt 1000)) (weekKey 3) (memoryCache (durableWeek 3 (Some 86400001))) \<and>
   map_of (weeksDocs (durableWeek 3 (Some 86400001))) (weekKey 3) = Some (docExpiring (Some 86400001)) \<and>
   lru_find (weekKey 3) (memoryCache (snd (getWeekFromCache (envAt 1000) 3 (durableWeek 3 (Some 86400001))))) =
     Some \<lparr>ekey = weekKey 3, evalue = docExpiring (Some 86400001), estart = now (envAt 1000),
           ettl = Some 3600000\<rparr> \<and>
   \<not> lru_has (now (envAt 1000)) (yearKey 2025) (memoryCache (durableYear 2025 (Some 86400001))) \<and>
   map_of (yearsDocs (durableYear 2025 (Some 86400001))) (yearKey 2025) = Some (docExpiring (Some 86400001)) \<and>
   lru_find (yearKey 2025)
       (memoryCache (snd (getYearFromCache (envAt 1000) 2025 (durableYear 2025 (Some 86400001))))) =
     Some \<lparr>ekey = yearKey 2025, evalue = docExpiring (Some 86400001), estart = now (envAt 1000),
           ettl = (if 2025 = currentYear (envAt 1000) then Some 86400000 else None)\<rparr> \<and>
   currentYear (envAt 1000) = 2025"
proof -
  have a: "firestore (envAt 1000)" "\<not> fsThrows (envAt 1000)"
    "\<not> isExpired (now (envAt 1000)) (docExpiring (Some 86400001))"
    by (simp_all add: example_eval cache_eval)
  have b: "\<not> lru_has (now (envAt 1000)) (weekKey 3) (memoryCache (durableWeek 3 (Some 86400001)))"
    "map_of (weeksDocs (durableWeek 3 (Some 86400001))) (weekKey 3) = Some (docExpiring (Some 86400001))"
    by (simp_all add: example_eval lru_eval)
  have c: "\<not> lru_has (now (envAt 1000)) (yearKey 2025) (memoryCache (durableYear 2025 (Some 86400001)))"
    "map_of (yearsDocs (durableYear 2025 (Some 86400001))) (yearKey 2025) = Some (docExpiring (Some 86400001))"
    by (simp_all add: example_eval durableYear_def lru_eval)
  have d: "currentYear (envAt 1000) = 2025" by (simp add: envAt_def)
  show ?thesis
    using durable_hit_promotes [OF a, of 3 "durableWeek 3 (Some 86400001)" 0]
      durable_hit_promotes [OF a, of 0 "durableYear 2025 (Some 86400001)" 2025] a b c d
    by blast
qed

section \<open>The writes counter\<close>

lemma setWeek_writes:
  "writes (stats (setWeekInCache e n d s)) =
     writes (stats s) + (if firestore e \<and> \<not> fsThrows e then 1 else 0)"
  by (simp add: setWeekInCache_def Let_def countWrite_def logError_def)

lemma setYear_writes:
  "writes (stats (setYearInCache e n d s)) =
     writes (stats s) + (if firestore e \<and> \<not> fsThrows e then 1 else 0)"
  by (simp add: setYearInCache_def Let_def countWrite_def logError_def)

text \<open>
  C2, as stated: every call of \<^verbatim>\<open>setWeekInCache\<close> or \<^verbatim>\<open>setYearInCache\<close> adds one to the
  writes counter, also when the durable tier is disabled or its write throws. It fails in
  both cases: the counter of the empty cache is still 0 after a write of week 3 with no
  Firestore collection, and after one whose Firestore write throws.
\<close>

theorem writes_counter_counterexample:
  "writes (stats (setWeekInCache (envDown 1000) 3 freshData emptyCache)) = 0 \<and>
   writes (stats (setWeekInCache (envThrows 1000) 3 freshData emptyCache)) = 0 \<and>
   writes (stats (setYearInCache (envDown 1000) 2025 freshData emptyCache)) = 0 \<and>
   writes (stats (emptyCache :: unit cache_state)) = 0 \<and>
   writes (stats (setWeekInCache (envDown 1000) 3 freshData emptyCache)) \<noteq>
     writes (stats (emptyCache :: unit cache_state)) + 1"
  by (simp add: setWeek_writes setYear_writes example_eval envThrows_def)

text \<open>
  C2, amended: a call of \<^verbatim>\<open>setWeekInCache\<close> or \<^verbatim>\<open>setYearInCache\<close> adds one to the writes
  counter exactly when the durable tier's collection is available and the durable write
  succeeds; when the durable tier is disabled or the durable write throws, the counter is
  unchanged (and the hot tier is written all the same).
\<close>

theorem writes_counted_on_durable_success:
  "writes (stats (setWeekInCache e n d s)) =
     (if firestore e \<and> \<not> fsThrows e then writes (stats s) + 1 else writes (stats s)) \<and>
   writes (stats (setYearInCache e y d s)) =
     (if firestore e \<and> \<not> fsThrows e then writes (stats s) + 1 else writes (stats s)) \<and>
   lru_find (weekKey n) (memoryCache (setWeekInCache e n d s)) \<noteq> None \<and>
   lru_find (yearKey y) (memoryCache (setYearInCache e y d s)) \<noteq> None"
proof (intro conjI)
  show "lru_find (weekKey n) (memoryCache (setWeekInCache e n d s)) \<noteq> None"
    by (simp add: setWeekInCache_def Let_def countWrite_def logError_def lru_find_set_same)
  show "lru_find (yearKey y) (memoryCache (setYearInCache e y d s)) \<noteq> None"
    by (simp add: setYearInCache_def Let_def countWrite_def logError_def lru_find_set_same)
qed (simp_all add: setWeek_writes setYear_writes)

theorem writes_counted_on_durable_success_witness:
  "writes (stats (setWeekInCache (envAt 1000) 3 freshData emptyCache)) = 1 \<and>
   writes (stats (setYearInCache (envThrows 1000) 2025 freshData emptyCache)) = 0"
  using writes_counted_on_durable_success [of "envAt 1000" 3 freshData emptyCache 2025]
    writes_counted_on_durable_success [of "envThrows 1000" 3 freshData emptyCache 2025]
  by (simp add: example_eval envThrows_def)

section \<open>The TTL policy\<close>

lemma map_of_update_same: "map_of (AList.update k v al) k = Some v"
  by (simp add: update_conv')

text \<open>
  C4: for a week number \<open>n \<ge> 0\<close>, \<^verbatim>\<open>getTTL\<close> gives one hour (3600000 ms) for 0, 24 hours
  (86400000 ms) for 1 to 4, seven days (604800000 ms) for 5 to 52 and \<^verbatim>\<open>null\<close> beyond 52.
  On the year write path, \<^verbatim>\<open>setYearInCache\<close> gives the current year a TTL of 24 hours,
  in the hot tier entry and in the \<^verbatim>\<open>expiresAt\<close> of the stored record, and a past year no
  expiration; the record written to the durable tier is the same one.
\<close>

theorem ttl_policy:
  assumes "0 \<le> n"
  shows
    "(n = 0 \<longrightarrow> getTTL n = Some 3600000) \<and>
     (1 \<le> n \<and> n \<le> 4 \<longrightarrow> getTTL n = Some 86400000) \<and>
     (5 \<le> n \<and> n \<le> 52 \<longrightarrow> getTTL n = Some 604800000) \<and>
     (52 < n \<longrightarrow> getTTL n = None) \<and>
     (y = currentYear e \<longrightarrow>
        lru_find (yearKey y) (memoryCache (setYearInCache e y d s)) =
          Some \<lparr>ekey = yearKey y,
                evalue = d\<lparr>cachedAt := Some (now e), expiresAt := Some (now e + 86400000)\<rparr>,
                estart = now e, ettl = Some 86400000\<rparr>) \<and>
     (y < currentYear e \<longrightarrow>
        lru_find (yearKey y) (memoryCache (setYearInCache e y d s)) =
          Some \<lparr>ekey = yearKey y,
                evalue = d\<lparr>cachedAt := Some (now e), expiresAt := None\<rparr>,
                estart = now e, ettl = None\<rparr>) \<and>
     (firestore e \<and> \<not> fsThrows e \<longrightarrow>
        map_of (yearsDocs (setYearInCache e y d s)) (yearKey y) =
          map_option evalue (lru_find (yearKey y) (memoryCache (setYearInCache e y d s))))"
  using assms
  by (simp add: getTTL_def setYearInCache_def Let_def countWrite_def logError_def truthy_def
      lru_find_set_same map_of_update_same)

theorem ttl_policy_witness:
  "getTTL 0 = Some 3600000 \<and> getTTL 3 = Some 86400000 \<and> getTTL 20 = Some 604800000 \<and>
   getTTL 53 = None \<and>
   map_of (yearsDocs (setYearInCache (envAt 1000) 2025 freshData emptyCache)) (yearKey 2025) =
     Some \<lparr>payload = (), cachedAt = Some 1000, expiresAt = Some 86401000\<rparr> \<and>
   map_of (yearsDocs (setYearInCache (envAt 1000) 2024 freshData emptyCache)) (yearKey 2024) =
     Some \<lparr>payload = (), cachedAt = Some 1000, expiresAt = None\<rparr>"
  using ttl_policy [of 0 2025 "envAt 1000" freshData emptyCache]
    ttl_policy [of 3 2025 "envAt 1000" freshData emptyCache]
    ttl_policy [of 20 2024 "envAt 1000" freshData emptyCache]
    ttl_policy [of 53 2024 "envAt 1000" freshData emptyCache]
  by (simp add: envAt_def freshData_def)


section \<open>Lazy expiration\<close>

lemma getWeek_expired:
  assumes "\<not> lru_has (now e) (weekKey n) (memoryCache s)"
    "map_of (weeksDocs s) (weekKey n) = Some d" "expiresAt d = Some x" "x \<noteq> 0" "x < now e"
  shows "fst (getWeekFromCache e n s) = None \<and>
         stats (snd (getWeekFromCache e n s)) = (stats s)\<lparr>misses := misses (stats s) + 1\<rparr> \<and>
         weeksDocs (snd (getWeekFromCache e n s)) = weeksDocs s \<and>
         yearsDocs (snd (getWeekFromCache e n s)) = yearsDocs s \<and>
         memoryCache (snd (getWeekFromCache e n s)) = memoryCache s"
  using assms
  by (simp add: getWeekFromCache_def Let_def countMiss_def logError_def isExpired_def truthy_def)

lemma getYear_expired:
  assumes "\<not> lru_has (now e) (yearKey y) (memoryCache s)"
    "map_of (yearsDocs s) (yearKey y) = Some d" "expiresAt d = Some x" "x \<noteq> 0" "x < now e"
  shows "fst (getYearFromCache e y s) = None \<and>
         stats (snd (getYearFromCache e y s)) = (stats s)\<lparr>misses := misses (stats s) + 1\<rparr> \<and>
         weeksDocs (snd (getYearFromCache e y s)) = weeksDocs s \<and>
         yearsDocs (snd (getYearFromCache e y s)) = yearsDocs s \<and>
         memoryCache (snd (getYearFromCache e y s)) = memoryCache s"
  using assms
  by (simp add: getYearFromCache_def Let_def countMiss_def logError_def isExpired_def truthy_def)

text \<open>
  C5, as stated: a key absent from the hot tier whose durable document has an
  \<^verbatim>\<open>expiresAt\<close> strictly in the past is looked up as absent and counted as a miss. It fails
  for an \<^verbatim>\<open>expiresAt\<close> of 0: \<^verbatim>\<open>!cachedData.expiresAt\<close> is true for 0, so at time 1000 the
  document of week 3 with \<^verbatim>\<open>expiresAt = 0\<close> is not expired; it is returned and counted as a
  durable hit.
\<close>

theorem expired_lookup_counterexample:
  "\<not> lru_has 1000 (weekKey 3) (memoryCache (durableWeek 3 (Some 0))) \<and>
   map_option expiresAt (map_of (weeksDocs (durableWeek 3 (Some 0))) (weekKey 3)) = Some (Some 0) \<and>
   (0::int) < now (envAt 1000) \<and>
   fst (getWeekFromCache (envAt 1000) 3 (durableWeek 3 (Some 0))) = Some (docExpiring (Some 0)) \<and>
   fst (getWeekFromCache (envAt 1000) 3 (durableWeek 3 (Some 0))) \<noteq> None \<and>
   misses (stats (snd (getWeekFromCache (envAt 1000) 3 (durableWeek 3 (Some 0))))) = 0 \<and>
   l2Hits (stats (snd (getWeekFromCache (envAt 1000) 3 (durableWeek 3 (Some 0))))) = 1"
  by (simp add: key_eval example_eval lru_eval cache_eval)

text \<open>
  C5, amended: for a key absent from the hot tier whose durable document has a non-zero
  \<^verbatim>\<open>expiresAt\<close> strictly before the time of the lookup, the lookup (of a week or of a year)
  returns absent and adds one to the misses, and nothing else changes: both durable
  collections and the hot tier are as before, so the expired document stays in place. A
  document whose \<^verbatim>\<open>expiresAt\<close> is absent, \<^verbatim>\<open>null\<close> or 0 is never expired, at any time.
\<close>

theorem expired_document_is_a_miss:
  assumes "expiresAt d = Some x" and "x \<noteq> 0" and "x < now e"
  shows
    "(\<not> lru_has (now e) (weekKey n) (memoryCache s) \<and> map_of (weeksDocs s) (weekKey n) = Some d \<longrightarrow>
        fst (getWeekFromCache e n s) = None \<and>
        stats (snd (getWeekFromCache e n s)) = (stats s)\<lparr>misses := misses (stats s) + 1\<rparr> \<and>
        weeksDocs (snd (getWeekFromCache e n s)) = weeksDocs s \<and>
        yearsDocs (snd (getWeekFromCache e n s)) = yearsDocs s \<and>
        memoryCache (snd (getWeekFromCache e n s)) = memoryCache s) \<and>
     (\<not> lru_has (now e) (yearKey y) (memoryCache s) \<and> map_of (yearsDocs s) (yearKey y) = Some d \<longrightarrow>
        fst (getYearFromCache e y s) = None \<and>
        stats (snd (getYearFromCache e y s)) = (stats s)\<lparr>misses := misses (stats s) + 1\<rparr> \<and>
        weeksDocs (snd (getYearFromCache e y s)) = weeksDocs s \<and>
        yearsDocs (snd (getYearFromCache e y s)) = yearsDocs s \<and>
        memoryCache (snd (getYearFromCache e y s)) = memoryCache s) \<and>
     (\<forall>t d'. expiresAt d' = None \<or> expiresAt d' = Some 0 \<longrightarrow> \<not> isExpired t (d' :: 'a cached))"
proof (intro conjI)
  show "\<not> lru_has (now e) (weekKey n) (memoryCache s) \<and> map_of (weeksDocs s) (weekKey n) = Some d \<longrightarrow>
        fst (getWeekFromCache e n s) = None \<and>
        stats (snd (getWeekFromCache e n s)) = (stats s)\<lparr>misses := misses (stats s) + 1\<rparr> \<and>
        weeksDocs (snd (getWeekFromCache e n s)) = weeksDocs s \<and>
        yearsDocs (snd (getWeekFromCache e n s)) = yearsDocs s \<and>
        memoryCache (snd (getWeekFromCache e n s)) = memoryCache s"
    using getWeek_expired [OF _ _ assms] by blast
  show "\<not> lru_has (now e) (yearKey y) (memoryCache s) \<and> map_of (yearsDocs s) (yearKey y) = Some d \<longrightarrow>
        fst (getYearFromCache e y s) = None \<and>
        stats (snd (getYearFromCache e y s)) = (stats s)\<lparr>misses := misses (stats s) + 1\<rparr> \<and>
        weeksDocs (snd (getYearFromCache e y s)) = weeksDocs s \<and>
        yearsDocs (snd (getYearFromCache e y s)) = yearsDocs s \<and>
        memoryCache (snd (getYearFromCache e y s)) = memoryCache s"
    using getYear_expired [OF _ _ assms] by blast
  show "\<forall>t d'. expiresAt d' = None \<or> expiresAt d' = Some 0 \<longrightarrow> \<not> isExpired t (d' :: 'a cached)"
    by (auto simp: isExpired_def truthy_def)
qed

theorem expired_document_is_a_miss_witness:
  "expiresAt (docExpiring (Some 500)) = Some 500 \<and> (500::int) \<noteq> 0 \<and> 500 < now (envAt 1000) \<and>
   \<not> lru_has (now (envAt 1000)) (weekKey 3) (memoryCache (durableWeek 3 (Some 500))) \<and>
   map_of (weeksDocs (durableWeek 3 (Some 500))) (weekKey 3) = Some (docExpiring (Some 500)) \<and>
   fst (getWeekFromCache (envAt 1000) 3 (durableWeek 3 (Some 500))) = None \<and>
   weeksDocs (snd (getWeekFromCache (envAt 1000) 3 (durableWeek 3 (Some 500)))) =
     weeksDocs (durableWeek 3 (Some 500))"
proof -
  have a: "expiresAt (docExpiring (Some 500)) = Some 500" "(500::int) \<noteq> 0" "500 < now (envAt 1000)"
    by (simp_all add: example_eval)
  have b: "\<not> lru_has (now (envAt 1000)) (weekKey 3) (memoryCache (durableWeek 3 (Some 500)))"
    "map_of (weeksDocs (durableWeek 3 (Some 500))) (weekKey 3) = Some (docExpiring (Some 500))"
    by (simp_all add: example_eval lru_eval)
  show ?thesis
    using expired_document_is_a_miss [OF a, of 3 "durableWeek 3 (Some 500)" 0] a b by blast
qed

section \<open>Hot tier hits\<close>

text \<open>
  C10: when the key is live in the hot tier, the lookup (of a week or of a year) returns
  the value of the hot tier entry and adds one to the hot hits; the other counters and the
  durable tier are unchanged, and the entry becomes the most recent one with its age
  restarted. Nothing is asked of the record's \<^verbatim>\<open>expiresAt\<close>: the result is the same when it
  has passed.
\<close>

theorem hot_hit_ignores_expiresAt:
  "(lru_has (now e) (weekKey n) (memoryCache s) \<longrightarrow>
      (\<exists>en. lru_find (weekKey n) (memoryCache s) = Some en \<and>
         getWeekFromCache e n s =
           (Some (evalue en),
            s\<lparr>stats := (stats s)\<lparr>l1Hits := l1Hits (stats s) + 1\<rparr>,
              memoryCache := lru_delete (weekKey n) (memoryCache s) @ [en\<lparr>estart := now e\<rparr>]\<rparr>))) \<and>
   (lru_has (now e) (yearKey y) (memoryCache s) \<longrightarrow>
      (\<exists>en. lru_find (yearKey y) (memoryCache s) = Some en \<and>
         getYearFromCache e y s =
           (Some (evalue en),
            s\<lparr>stats := (stats s)\<lparr>l1Hits := l1Hits (stats s) + 1\<rparr>,
              memoryCache := lru_delete (yearKey y) (memoryCache s) @ [en\<lparr>estart := now e\<rparr>]\<rparr>)))"
  by (auto simp add: getWeekFromCache_def getYearFromCache_def Let_def countL1Hit_def
      lru_has_def lru_get_def split: option.splits)

text \<open>
  Week 0 is written at time 0 with an \<^verbatim>\<open>expiresAt\<close> of one hour (3600000) and read after
  half an hour, which restarts the age of its hot tier entry. At 70 minutes (4200000) the
  entry is still live, and the lookup returns the record whose \<^verbatim>\<open>expiresAt\<close> has passed.
\<close>

theorem hot_hit_ignores_expiresAt_witness:
  "lru_has (now (envAt 4200000)) (weekKey 0) (memoryCache week0ReadOnce) \<and>
   fst (getWeekFromCache (envAt 4200000) 0 week0ReadOnce) =
     Some \<lparr>payload = (), cachedAt = Some 0, expiresAt = Some 3600000\<rparr> \<and>
   isExpired (now (envAt 4200000)) \<lparr>payload = (), cachedAt = Some 0, expiresAt = Some 3600000\<rparr> \<and>
   l1Hits (stats (snd (getWeekFromCache (envAt 4200000) 0 week0ReadOnce))) =
     l1Hits (stats week0ReadOnce) + 1"
proof -
  have a: "lru_has (now (envAt 4200000)) (weekKey 0) (memoryCache week0ReadOnce)"
    by (simp add: week0ReadOnce_def key_eval example_eval lru_eval cache_eval)
  have b: "lru_find (weekKey 0) (memoryCache week0ReadOnce) =
      Some \<lparr>ekey = weekKey 0, evalue = \<lparr>payload = (), cachedAt = Some 0, expiresAt = Some 3600000\<rparr>,
            estart = 1800000, ettl = Some 3600000\<rparr>"
    by (simp add: week0ReadOnce_def key_eval example_eval lru_eval cache_eval)
  have c: "isExpired (now (envAt 4200000)) \<lparr>payload = (), cachedAt = Some 0, expiresAt = Some 3600000\<rparr>"
    by (simp add: example_eval cache_eval)
  from hot_hit_ignores_expiresAt [of "envAt 4200000" 0 week0ReadOnce 0] a b
  have d: "getWeekFromCache (envAt 4200000) 0 week0ReadOnce =
      (Some \<lparr>payload = (), cachedAt = Some 0, expiresAt = Some 3600000\<rparr>,
       week0ReadOnce\<lparr>stats := (stats week0ReadOnce)\<lparr>l1Hits := l1Hits (stats week0ReadOnce) + 1\<rparr>,
         memoryCache := lru_delete (weekKey 0) (memoryCache week0ReadOnce) @
           [\<lparr>ekey = weekKey 0, evalue = \<lparr>payload = (), cachedAt = Some 0, expiresAt = Some 3600000\<rparr>,
             estart = 1800000, ettl = Some 3600000\<rparr>\<lparr>estart := now (envAt 4200000)\<rparr>]\<rparr>)"
    by auto
  show ?thesis using a c by (simp add: d)
qed


section \<open>Capacity and eviction order of the hot tier\<close>

lemma lru_find_None_iff: "lru_find k c = None \<longleftrightarrow> k \<notin> set (lru_keys c)"
  by (induction c) (auto simp: lru_find_def lru_keys_def)

lemma lru_keys_delete: "lru_keys (lru_delete k c) = filter (\<lambda>x. x \<noteq> k) (lru_keys c)"
  by (induction c) (auto simp: lru_delete_def lru_keys_def)

lemma lru_keys_append: "lru_keys (c @ d) = lru_keys c @ lru_keys d"
  by (simp add: lru_keys_def)

lemma length_lru_delete: "length (lru_delete k c) \<le> length c"
  by (simp add: lru_delete_def)

lemma length_lru_delete_found:
  "lru_find k c = Some e \<Longrightarrow> length (lru_delete k c) < length c"
proof (induction c)
  case Nil
  then show ?case by (simp add: lru_find_def)
next
  case (Cons x c)
  show ?case
  proof (cases "ekey x = k")
    case True
    with True show ?thesis by (simp add: lru_delete_def le_imp_less_Suc)
  next
    case False
    with Cons show ?thesis by (simp add: lru_find_def lru_delete_def)
  qed
qed

lemma length_lru_set:
  "length c \<le> memoryCache_max \<Longrightarrow> length (lru_set t k v ttl c) \<le> memoryCache_max"
proof (cases "lru_find k c")
  case None
  assume "length c \<le> memoryCache_max"
  with None show ?thesis
    by (cases c) (auto simp: lru_set_def Let_def memoryCache_max_def)
next
  case (Some e)
  assume le: "length c \<le> memoryCache_max"
  from Some have "length (lru_delete k c) < length c" by (rule length_lru_delete_found)
  with le Some show ?thesis by (simp add: lru_set_def Let_def)
qed

lemma length_lru_get: "length (snd (lru_get t k c)) \<le> length c"
proof (cases "lru_find k c")
  case None
  then show ?thesis by (simp add: lru_get_def)
next
  case (Some e)
  from Some have "length (lru_delete k c) < length c" by (rule length_lru_delete_found)
  with Some show ?thesis by (simp add: lru_get_def)
qed

lemma length_lru_step:
  "length c \<le> memoryCache_max \<Longrightarrow> length (lru_step c x) \<le> memoryCache_max"
proof (cases x)
  case (OpGet t k)
  assume "length c \<le> memoryCache_max"
  with OpGet length_lru_get [of t k c] show ?thesis by simp
next
  case (OpDelete k)
  assume "length c \<le> memoryCache_max"
  with OpDelete length_lru_delete [of k c] show ?thesis by simp
qed (simp_all add: length_lru_set lru_clear_def)

lemma length_lru_run:
  "length c \<le> memoryCache_max \<Longrightarrow> length (lru_run ops c) \<le> memoryCache_max"
  unfolding lru_run_def
  by (induction ops arbitrary: c) (simp_all add: length_lru_step)

lemma lru_keys_set_new:
  "k \<notin> set (lru_keys c) \<Longrightarrow>
   lru_keys (lru_set t k v ttl c) =
     (if length c < memoryCache_max then lru_keys c else tl (lru_keys c)) @ [k]"
proof -
  assume "k \<notin> set (lru_keys c)"
  then have "lru_find k c = None" by (simp add: lru_find_None_iff)
  then show ?thesis by (simp add: lru_set_def Let_def lru_keys_def map_tl)
qed

lemma lru_keys_set_present:
  "k \<in> set (lru_keys c) \<Longrightarrow>
   lru_keys (lru_set t k v ttl c) = filter (\<lambda>x. x \<noteq> k) (lru_keys c) @ [k]"
proof -
  assume "k \<in> set (lru_keys c)"
  then obtain e where "lru_find k c = Some e"
    using lru_find_None_iff [of k c] by (cases "lru_find k c") auto
  then show ?thesis
    by (simp add: lru_set_def Let_def lru_keys_append lru_keys_delete) (simp add: lru_keys_def)
qed

lemma lru_find_key: "lru_find k c = Some e \<Longrightarrow> ekey e = k"
  by (induction c) (auto simp: lru_find_def split: if_splits)

lemma lru_keys_get_live:
  "lru_has t k c \<Longrightarrow> lru_keys (snd (lru_get t k c)) = filter (\<lambda>x. x \<noteq> k) (lru_keys c) @ [k]"
proof -
  assume h: "lru_has t k c"
  then obtain e where e: "lru_find k c = Some e" "\<not> isStale t e"
    by (auto simp: lru_has_def split: option.splits)
  from e(1) have "ekey e = k" by (rule lru_find_key)
  with e show ?thesis
    by (simp add: lru_get_def lru_keys_append lru_keys_delete) (simp add: lru_keys_def)
qed

lemma lru_run_append: "lru_run (xs @ ys) c = lru_run ys (lru_run xs c)"
  by (simp add: lru_run_def)

lemma lru_run_Cons: "lru_run (x # xs) c = lru_run xs (lru_step c x)"
  by (simp add: lru_run_def)

lemma lru_run_Nil: "lru_run [] c = c"
  by (simp add: lru_run_def)

lemma lru_step_setOp: "lru_step c (setOp x) = lru_set (fst x) (insKey x) (fst (snd (snd x))) (snd (snd (snd x))) c"
  by (cases x) simp

lemma keys_after_inserts:
  "distinct (map insKey ins) \<Longrightarrow> set (map insKey ins) \<inter> set (lru_keys c) = {} \<Longrightarrow>
   length c \<le> memoryCache_max \<Longrightarrow>
   lru_keys (lru_run (map setOp ins) c) =
     drop (length c + length ins - memoryCache_max) (lru_keys c @ map insKey ins)"
proof (induction ins arbitrary: c)
  case Nil
  then show ?case by (simp add: lru_run_Nil)
next
  case (Cons x ins)
  let ?c = "lru_set (fst x) (insKey x) (fst (snd (snd x))) (snd (snd (snd x))) c"
  from Cons.prems have new: "insKey x \<notin> set (lru_keys c)" by auto
  have keys: "lru_keys ?c =
      (if length c < memoryCache_max then lru_keys c else tl (lru_keys c)) @ [insKey x]"
    using new by (rule lru_keys_set_new)
  have len: "length ?c \<le> memoryCache_max"
    using Cons.prems(3) by (rule length_lru_set)
  have lenk: "length (lru_keys c) = length c" by (simp add: lru_keys_def)
  have disj: "set (map insKey ins) \<inter> set (lru_keys ?c) = {}"
  proof -
    have "set (tl (lru_keys c)) \<subseteq> set (lru_keys c)"
      by (cases "lru_keys c") auto
    with Cons.prems(1,2) show ?thesis by (auto simp: keys)
  qed
  from Cons.prems(1) have dist: "distinct (map insKey ins)" by simp
  have IH: "lru_keys (lru_run (map setOp ins) ?c) =
     drop (length ?c + length ins - memoryCache_max) (lru_keys ?c @ map insKey ins)"
    using dist disj len by (rule Cons.IH)
  have run: "lru_run (setOp x # map setOp ins) c = lru_run (map setOp ins) ?c"
    by (simp add: lru_run_Cons lru_step_setOp)
  show ?case
  proof (cases "length c < memoryCache_max")
    case True
    have "length ?c = length (lru_keys ?c)" by (simp add: lru_keys_def)
    with True lenk have "length ?c = Suc (length c)" by (simp add: keys)
    with True lenk show ?thesis by (simp add: run IH keys)
  next
    case False
    with Cons.prems(3) have full: "length c = memoryCache_max" by simp
    then obtain h r where hr: "lru_keys c = h # r"
      using lenk by (cases "lru_keys c") (auto simp: memoryCache_max_def)
    have "length ?c = length (lru_keys ?c)" by (simp add: lru_keys_def)
    with False lenk full hr have "length ?c = memoryCache_max" by (simp add: keys)
    with False full lenk show ?thesis
      by (simp add: run IH keys hr drop_Cons')
  qed
qed


lemma length_memoryCache_getWeek:
  "length (memoryCache s) \<le> memoryCache_max \<Longrightarrow>
   length (memoryCache (snd (getWeekFromCache e n s))) \<le> memoryCache_max"
  using length_lru_get [of "now e" "weekKey n" "memoryCache s"]
  by (auto simp: getWeekFromCache_def Let_def countL1Hit_def countL2Hit_def countMiss_def
      logError_def length_lru_set split: option.splits prod.splits)

lemma length_memoryCache_getYear:
  "length (memoryCache s) \<le> memoryCache_max \<Longrightarrow>
   length (memoryCache (snd (getYearFromCache e y s))) \<le> memoryCache_max"
  using length_lru_get [of "now e" "yearKey y" "memoryCache s"]
  by (auto simp: getYearFromCache_def Let_def countL1Hit_def countL2Hit_def countMiss_def
      logError_def length_lru_set split: option.splits prod.splits)

lemma length_memoryCache_setWeek:
  "length (memoryCache s) \<le> memoryCache_max \<Longrightarrow>
   length (memoryCache (setWeekInCache e n d s)) \<le> memoryCache_max"
  by (simp add: setWeekInCache_def Let_def countWrite_def logError_def length_lru_set)

lemma length_memoryCache_setYear:
  "length (memoryCache s) \<le> memoryCache_max \<Longrightarrow>
   length (memoryCache (setYearInCache e y d s)) \<le> memoryCache_max"
  by (simp add: setYearInCache_def Let_def countWrite_def logError_def length_lru_set)

lemma filter_neq_notin: "x \<notin> set xs \<Longrightarrow> filter (\<lambda>y. y \<noteq> x) xs = xs"
  by (induction xs) auto

lemma keys_touch_then_insert:
  assumes d: "distinct (map insKey (a # bs @ [k]))" and n: "length bs = 9"
    and c1: "lru_keys c1 = map insKey bs @ [insKey a]"
  shows "lru_keys (lru_step c1 (setOp k)) = map insKey (tl bs) @ [insKey a, insKey k]"
proof -
  from d have new: "insKey k \<notin> set (lru_keys c1)" by (auto simp: c1)
  have "length c1 = length (lru_keys c1)" by (simp add: lru_keys_def)
  with n have full: "length c1 = memoryCache_max" by (simp add: c1 memoryCache_max_def)
  from n obtain b r where br: "bs = b # r" by (cases bs) auto
  from new full show ?thesis
    by (simp add: lru_step_setOp lru_keys_set_new c1 br)
qed

text \<open>
  C9: the hot tier never holds more than 10 entries, whatever operations are run on it
  from the empty cache, and the lookups and writes of the cache service keep that bound.
  After 11 writes of distinct keys \<open>a, bs, k\<close> (nine keys \<open>bs\<close>) exactly 10 entries remain
  and the evicted one is \<open>a\<close>, the least recently accessed. When \<open>a\<close> is read (while
  live) or written again after the first ten writes, the write of \<open>k\<close> evicts the head of
  \<open>bs\<close> instead, and \<open>a\<close> stays as the most recent entry but one.
\<close>

theorem hot_tier_capacity_and_lru:
  fixes a k :: "int \<times> string \<times> 'v \<times> int option" and ops :: "'v lru_op list"
  assumes "distinct (map insKey (a # bs @ [k]))" and "length bs = 9"
  shows
    "lru_size (lru_run ops []) \<le> 10 \<and>
     (length (memoryCache s) \<le> 10 \<longrightarrow>
        length (memoryCache (snd (getWeekFromCache e n s))) \<le> 10 \<and>
        length (memoryCache (snd (getYearFromCache e n s))) \<le> 10 \<and>
        length (memoryCache (setWeekInCache e n d s)) \<le> 10 \<and>
        length (memoryCache (setYearInCache e n d s)) \<le> 10) \<and>
     lru_keys (lru_run (map setOp (a # bs @ [k])) []) = map insKey (bs @ [k]) \<and>
     lru_size (lru_run (map setOp (a # bs @ [k])) []) = 10 \<and>
     (lru_has t (insKey a) (lru_run (map setOp (a # bs)) []) \<longrightarrow>
        lru_keys (lru_run (map setOp (a # bs) @ [OpGet t (insKey a), setOp k]) []) =
          map insKey (tl bs) @ [insKey a, insKey k]) \<and>
     lru_keys (lru_run (map setOp (a # bs) @ [OpSet t (insKey a) v ttl, setOp k]) []) =
       map insKey (tl bs) @ [insKey a, insKey k]"
proof -
  let ?c = "lru_run (map setOp (a # bs)) []"
  have cap: "lru_size (lru_run ops []) \<le> 10"
    using length_lru_run [of "[]" ops] by (simp add: lru_size_def memoryCache_max_def)
  have svc: "length (memoryCache s) \<le> 10 \<longrightarrow>
        length (memoryCache (snd (getWeekFromCache e n s))) \<le> 10 \<and>
        length (memoryCache (snd (getYearFromCache e n s))) \<le> 10 \<and>
        length (memoryCache (setWeekInCache e n d s)) \<le> 10 \<and>
        length (memoryCache (setYearInCache e n d s)) \<le> 10"
    using length_memoryCache_getWeek [of s e n] length_memoryCache_getYear [of s e n]
      length_memoryCache_setWeek [of s e n d] length_memoryCache_setYear [of s e n d]
    by (simp add: memoryCache_max_def)
  have all: "lru_keys (lru_run (map setOp (a # bs @ [k])) []) = map insKey (bs @ [k])"
    using keys_after_inserts [of "a # bs @ [k]" "[]"] assms
    by (simp add: lru_keys_def memoryCache_max_def)
  have size: "lru_size (lru_run (map setOp (a # bs @ [k])) []) = 10"
  proof -
    have "lru_size (lru_run (map setOp (a # bs @ [k])) []) =
        length (lru_keys (lru_run (map setOp (a # bs @ [k])) []))"
      by (simp add: lru_size_def lru_keys_def)
    with assms(2) show ?thesis by (simp only: all) simp
  qed
  have ten: "lru_keys ?c = insKey a # map insKey bs"
    using keys_after_inserts [of "a # bs" "[]"] assms
    by (simp add: lru_keys_def memoryCache_max_def)
  from assms(1) have notin: "insKey a \<notin> set (map insKey bs)" by auto
  then have flt: "filter (\<lambda>x. x \<noteq> insKey a) (insKey a # map insKey bs) = map insKey bs"
    by (simp add: filter_neq_notin)
  have rd: "lru_has t (insKey a) ?c \<longrightarrow>
        lru_keys (lru_run (map setOp (a # bs) @ [OpGet t (insKey a), setOp k]) []) =
          map insKey (tl bs) @ [insKey a, insKey k]"
  proof
    assume live: "lru_has t (insKey a) ?c"
    have g: "lru_keys (snd (lru_get t (insKey a) ?c)) =
        filter (\<lambda>x. x \<noteq> insKey a) (lru_keys ?c) @ [insKey a]"
      by (rule lru_keys_get_live [OF live])
    have "lru_keys (snd (lru_get t (insKey a) ?c)) = map insKey bs @ [insKey a]"
      by (simp only: g ten flt)
    then have "lru_keys (lru_step (snd (lru_get t (insKey a) ?c)) (setOp k)) =
        map insKey (tl bs) @ [insKey a, insKey k]"
      by (rule keys_touch_then_insert [OF assms])
    then show "lru_keys (lru_run (map setOp (a # bs) @ [OpGet t (insKey a), setOp k]) []) =
          map insKey (tl bs) @ [insKey a, insKey k]"
      by (simp only: lru_run_append lru_run_Cons lru_run_Nil lru_step.simps)
  qed
  have wr: "lru_keys (lru_run (map setOp (a # bs) @ [OpSet t (insKey a) v ttl, setOp k]) []) =
       map insKey (tl bs) @ [insKey a, insKey k]"
  proof -
    have "insKey a \<in> set (lru_keys ?c)" by (simp only: ten) simp
    then have g: "lru_keys (lru_set t (insKey a) v ttl ?c) =
        filter (\<lambda>x. x \<noteq> insKey a) (lru_keys ?c) @ [insKey a]"
      by (rule lru_keys_set_present)
    have "lru_keys (lru_set t (insKey a) v ttl ?c) = map insKey bs @ [insKey a]"
      by (simp only: g ten flt)
    then have "lru_keys (lru_step (lru_set t (insKey a) v ttl ?c) (setOp k)) =
        map insKey (tl bs) @ [insKey a, insKey k]"
      by (rule keys_touch_then_insert [OF assms])
    then show ?thesis
      by (simp only: lru_run_append lru_run_Cons lru_run_Nil lru_step.simps)
  qed
  from cap svc all size rd wr show ?thesis by blast
qed

text \<open>The keys \<^verbatim>\<open>k0\<close> to \<^verbatim>\<open>k10\<close>: \<^verbatim>\<open>k0\<close> is evicted by the eleventh write; when \<^verbatim>\<open>k0\<close> is read
  at time 10 before \<^verbatim>\<open>k10\<close> is written, \<^verbatim>\<open>k1\<close> is evicted and \<^verbatim>\<open>k0\<close> stays.\<close>

theorem hot_tier_capacity_and_lru_witness:
  "distinct (map insKey (writeAt 0 # map writeAt [1, 2, 3, 4, 5, 6, 7, 8, 9] @ [writeAt 10])) \<and>
   length (map writeAt [1, 2, 3, 4, 5, 6, 7, 8, 9]) = 9 \<and>
   lru_has 10 (insKey (writeAt 0)) (lru_run (map setOp (writeAt 0 # map writeAt [1, 2, 3, 4, 5, 6, 7, 8, 9])) []) \<and>
   lru_keys (lru_run (map setOp (writeAt 0 # map writeAt [1, 2, 3, 4, 5, 6, 7, 8, 9] @ [writeAt 10])) []) =
     [''k1'', ''k2'', ''k3'', ''k4'', ''k5'', ''k6'', ''k7'', ''k8'', ''k9'', ''k10''] \<and>
   lru_keys (lru_run (map setOp (writeAt 0 # map writeAt [1, 2, 3, 4, 5, 6, 7, 8, 9]) @
       [OpGet 10 (insKey (writeAt 0)), setOp (writeAt 10)]) []) =
     [''k2'', ''k3'', ''k4'', ''k5'', ''k6'', ''k7'', ''k8'', ''k9'', ''k0'', ''k10'']"
proof -
  have a: "distinct (map insKey (writeAt 0 # map writeAt [1, 2, 3, 4, 5, 6, 7, 8, 9] @ [writeAt 10]))"
    by (simp add: writeAt_def showNat.simps digit_def)
  have b: "length (map writeAt [1, 2, 3, 4, 5, 6, 7, 8, 9]) = 9" by simp
  have c: "lru_has 10 (insKey (writeAt 0)) (lru_run (map setOp (writeAt 0 # map writeAt [1, 2, 3, 4, 5, 6, 7, 8, 9])) [])"
    by (simp add: writeAt_def showNat.simps digit_def lru_run_def lru_eval)
  have k: "map insKey (map writeAt [1, 2, 3, 4, 5, 6, 7, 8, 9] @ [writeAt 10]) =
      [''k1'', ''k2'', ''k3'', ''k4'', ''k5'', ''k6'', ''k7'', ''k8'', ''k9'', ''k10'']"
    "map insKey (tl (map writeAt [1, 2, 3, 4, 5, 6, 7, 8, 9])) @ [insKey (writeAt 0), insKey (writeAt 10)] =
      [''k2'', ''k3'', ''k4'', ''k5'', ''k6'', ''k7'', ''k8'', ''k9'', ''k0'', ''k10'']"
    by (simp_all add: writeAt_def showNat.simps digit_def)
  show ?thesis
    using hot_tier_capacity_and_lru [OF a b, where t = 10] a b c
    by (simp only: k) blast
qed


section \<open>Clearing the cache\<close>

lemma map_of_commitDeletes:
  "map_of (commitDeletes batch docs) = map_of docs |` (- set batch)"
  unfolding commitDeletes_def
proof (induction batch arbitrary: docs)
  case Nil
  then show ?case by simp
next
  case (Cons k batch)
  have "map_of (AList.delete k docs) |` (- set batch) = map_of docs |` (- set (k # batch))"
    by (rule ext) (simp add: delete_conv restrict_map_def)
  with Cons show ?case by simp
qed

lemma map_of_clearBatch: "map_of (commitDeletes (clearBatch docs) docs) k = None"
proof (cases "k \<in> set (clearBatch docs)")
  case True
  then show ?thesis by (simp add: map_of_commitDeletes)
next
  case False
  then have "map_of docs k = None"
    by (simp add: clearBatch_def map_of_eq_None_iff)
  with False show ?thesis by (simp add: map_of_commitDeletes)
qed

lemma clearBatch_unbounded:
  "\<not> (\<exists>B. \<forall>docs :: (string \<times> unit cached) list. length (clearBatch docs) \<le> B)"
proof
  assume "\<exists>B. \<forall>docs :: (string \<times> unit cached) list. length (clearBatch docs) \<le> B"
  then obtain B where b: "\<forall>docs :: (string \<times> unit cached) list. length (clearBatch docs) \<le> B"
    by blast
  have "length (clearBatch (replicate (Suc B) (weekKey 0, docExpiring None))) = Suc B"
    by (simp add: clearBatch_def)
  with b show False
    by (metis Suc_n_not_le_n)
qed

text \<open>
  C3, as stated: \<^verbatim>\<open>clearAllCache\<close> empties the durable tier by a deletion in batches, not
  in one unbounded transaction, and afterwards no week or year record remains in either
  tier. With two week documents and the document of the year 2024 in the durable tier
  (Firestore reachable, no failure), the one write batch that is committed holds the
  deletes of all the week documents, and its size has no bound; the year document is
  still in the durable tier after the call, and the next lookup of the year 2024 returns
  it as a durable hit.
\<close>

theorem clearAllCache_counterexample:
  "clearBatch (weeksDocs weeksAndYear) = [weekKey 1, weekKey 2] \<and>
   weeksDocs (clearAllCache (envAt 1000) weeksAndYear) =
     commitDeletes (clearBatch (weeksDocs weeksAndYear)) (weeksDocs weeksAndYear) \<and>
   \<not> (\<exists>B. \<forall>docs :: (string \<times> unit cached) list. length (clearBatch docs) \<le> B) \<and>
   errorLog (clearAllCache (envAt 1000) weeksAndYear) = [] \<and>
   map_of (yearsDocs (clearAllCache (envAt 1000) weeksAndYear)) (yearKey 2024) = Some (docExpiring None) \<and>
   fst (getYearFromCache (envAt 2000) 2024 (clearAllCache (envAt 1000) weeksAndYear)) =
     Some (docExpiring None)"
proof (intro conjI)
  show "\<not> (\<exists>B. \<forall>docs :: (string \<times> unit cached) list. length (clearBatch docs) \<le> B)"
    by (rule clearBatch_unbounded)
qed (simp_all add: weeksAndYear_def clearAllCache_def clearBatch_def commitDeletes_def
      lru_clear_def key_eval example_eval lru_eval cache_eval)

text \<open>
  C3, amended: \<^verbatim>\<open>clearAllCache\<close> empties the hot tier at once, so that no week or year
  record remains there. When the weeks collection is available and Firestore does not
  fail, it deletes the week documents in one write batch that holds one delete per
  document of the collection, whatever their number, and no week document remains in the
  durable tier. A Firestore failure is logged and not raised, and leaves every week
  document in place; without a collection the durable tier is not touched.
\<close>

theorem clearAllCache_clears_hot_tier_and_weeks:
  "memoryCache (clearAllCache e s) = [] \<and>
   (firestore e \<and> \<not> fsThrows e \<longrightarrow>
      weeksDocs (clearAllCache e s) = commitDeletes (clearBatch (weeksDocs s)) (weeksDocs s) \<and>
      length (clearBatch (weeksDocs s)) = length (weeksDocs s) \<and>
      (\<forall>k. map_of (weeksDocs (clearAllCache e s)) k = None) \<and>
      errorLog (clearAllCache e s) = errorLog s) \<and>
   (firestore e \<and> fsThrows e \<longrightarrow>
      errorLog (clearAllCache e s) = errorLog s @ [ErrClear] \<and>
      weeksDocs (clearAllCache e s) = weeksDocs s) \<and>
   (\<not> firestore e \<longrightarrow>
      errorLog (clearAllCache e s) = errorLog s \<and>
      weeksDocs (clearAllCache e s) = weeksDocs s)"
  using map_of_clearBatch [of "weeksDocs s"]
  by (simp add: clearAllCache_def Let_def lru_clear_def logError_def) (simp add: clearBatch_def)

theorem clearAllCache_clears_hot_tier_and_weeks_witness:
  "firestore (envAt 1000) \<and> \<not> fsThrows (envAt 1000) \<and>
   memoryCache weeksAndYear \<noteq> [] \<and>
   map_of (weeksDocs weeksAndYear) (weekKey 1) \<noteq> None \<and>
   memoryCache (clearAllCache (envAt 1000) weeksAndYear) = [] \<and>
   map_of (weeksDocs (clearAllCache (envAt 1000) weeksAndYear)) (weekKey 1) = None \<and>
   errorLog (clearAllCache (envThrows 1000) weeksAndYear) = [ErrClear] \<and>
   weeksDocs (clearAllCache (envThrows 1000) weeksAndYear) = weeksDocs weeksAndYear"
proof -
  have a: "firestore (envAt 1000) \<and> \<not> fsThrows (envAt 1000)"
    "firestore (envThrows 1000) \<and> fsThrows (envThrows 1000)"
    by (simp_all add: envAt_def envThrows_def)
  have b: "memoryCache weeksAndYear \<noteq> []" "map_of (weeksDocs weeksAndYear) (weekKey 1) \<noteq> None"
    "errorLog weeksAndYear = []"
    by (simp_all add: weeksAndYear_def example_eval)
  have c: "memoryCache (clearAllCache (envAt 1000) weeksAndYear) = []"
    "map_of (weeksDocs (clearAllCache (envAt 1000) weeksAndYear)) (weekKey 1) = None"
    using clearAllCache_clears_hot_tier_and_weeks [of "envAt 1000" weeksAndYear] a(1)
    by blast+
  have d: "errorLog (clearAllCache (envThrows 1000) weeksAndYear) = errorLog weeksAndYear @ [ErrClear]"
    "weeksDocs (clearAllCache (envThrows 1000) weeksAndYear) = weeksDocs weeksAndYear"
    using clearAllCache_clears_hot_tier_and_weeks [of "envThrows 1000" weeksAndYear] a(2)
    by blast+
  show ?thesis
    using a(1) b(1,2) c d by (simp add: b(3))
qed


section \<open>Cache warming\<close>

lemma warmTask_cached:
  "fst (getWeekFromCache e k s) \<noteq> None \<Longrightarrow>
   warmTask fetchWeekFn e k s = (Fulfilled (k, StatusCached), [], snd (getWeekFromCache e k s))"
  by (auto simp: warmTask_def split: prod.splits option.splits)

lemma warmTask_calls:
  "warmTask fetchWeekFn e k s = (r, calls, s1) \<Longrightarrow>
   calls = (if isCachedStatus r then [] else [k])"
  by (auto simp: warmTask_def isCachedStatus_def
      split: prod.splits option.splits sum.splits thrown.splits)

lemma warmTask_fulfilled:
  "\<forall>w s0. fst (fetchWeekFn w s0) \<noteq> Inl Nullish \<Longrightarrow>
   warmTask fetchWeekFn e k s = (r, calls, s1) \<Longrightarrow> isFulfilled r"
proof -
  assume nn: "\<forall>w s0. fst (fetchWeekFn w s0) \<noteq> Inl Nullish"
  assume t: "warmTask fetchWeekFn e k s = (r, calls, s1)"
  have "fst (fetchWeekFn k (snd (getWeekFromCache e k s))) \<noteq> Inl Nullish"
    using nn by blast
  with t show "isFulfilled r"
    by (auto simp: warmTask_def isFulfilled_def
        split: prod.splits option.splits sum.splits thrown.splits)
qed

lemma status_count:
  "(if isCachedStatus r then 1 else 0) + (if isWarmedStatus r then 1 else 0) +
   (if isErrorStatus r then 1 else 0) = (if isFulfilled r then 1 else (0::nat))"
proof (cases r)
  case (Fulfilled p)
  obtain k st where "p = (k, st)" by (cases p)
  with Fulfilled show ?thesis
    by (cases st)
       (simp_all add: isCachedStatus_def isWarmedStatus_def isErrorStatus_def isFulfilled_def)
next
  case (Rejected m)
  then show ?thesis
    by (simp add: isCachedStatus_def isWarmedStatus_def isErrorStatus_def isFulfilled_def)
qed

lemma warmTasks_results:
  "warmTasks fetchWeekFn envOf ks s = (results, calls, s') \<Longrightarrow>
   length results = length ks \<and>
   calls = notCachedKeys ks results \<and>
   length (filter isCachedStatus results) + length (filter isWarmedStatus results) +
     length (filter isErrorStatus results) = length (filter isFulfilled results) \<and>
   ((\<forall>w s0. fst (fetchWeekFn w s0) \<noteq> Inl Nullish) \<longrightarrow>
      length (filter isFulfilled results) = length ks)"
proof (induction ks arbitrary: s results calls s')
  case Nil
  then show ?case by (simp add: notCachedKeys_def)
next
  case (Cons k ks)
  obtain r c1 s1 where t: "warmTask fetchWeekFn (envOf k) k s = (r, c1, s1)"
    by (cases "warmTask fetchWeekFn (envOf k) k s") auto
  obtain rs c2 s2 where ts: "warmTasks fetchWeekFn envOf ks s1 = (rs, c2, s2)"
    by (cases "warmTasks fetchWeekFn envOf ks s1") auto
  from Cons.prems t ts have res: "results = r # rs" "calls = c1 @ c2"
    by simp_all
  note IH = Cons.IH [OF ts]
  have c1: "c1 = (if isCachedStatus r then [] else [k])"
    using t by (rule warmTask_calls)
  have len: "length (r # rs) = length (k # ks)"
    using IH by simp
  have calls: "c1 @ c2 = notCachedKeys (k # ks) (r # rs)"
    using IH c1 by (simp add: notCachedKeys_def)
  have cnt: "length (filter isCachedStatus (r # rs)) + length (filter isWarmedStatus (r # rs)) +
      length (filter isErrorStatus (r # rs)) = length (filter isFulfilled (r # rs))"
    using IH status_count [of r] by (simp split: if_splits)
  have ful: "(\<forall>w s0. fst (fetchWeekFn w s0) \<noteq> Inl Nullish) \<longrightarrow>
      length (filter isFulfilled (r # rs)) = length (k # ks)"
  proof
    assume nn: "\<forall>w s0. fst (fetchWeekFn w s0) \<noteq> Inl Nullish"
    then have "isFulfilled r" using t by (rule warmTask_fulfilled)
    with IH nn show "length (filter isFulfilled (r # rs)) = length (k # ks)" by simp
  qed
  from len calls cnt ful show ?case unfolding res by blast
qed

text \<open>
  C6, as stated: \<^verbatim>\<open>warmCache\<close> returns a summary whose counts of already cached, freshly
  warmed and failed keys sum to the number of keys. The function is declared
  \<^verbatim>\<open>Promise<void>\<close> and ends without a \<^verbatim>\<open>return\<close> statement: called on the weeks 1 and 2,
  with week 1 in the durable tier, it returns \<^verbatim>\<open>undefined\<close>, so no summary is returned
  whose counts could sum to 2.
\<close>

theorem warm_returns_no_summary_counterexample:
  "fst (warmCache freshFetch envAt 0 5 [1, 2] (durableWeek 1 None)) = Undefined \<and>
   \<not> (\<exists>sm. fst (warmCache freshFetch envAt 0 5 [1, 2] (durableWeek 1 None)) = Returned sm \<and>
          alreadyCached sm + freshlyWarmed sm + failedKeys sm = 2)"
  by (simp add: warmCache_def Let_def split: prod.splits)

text \<open>
  C6, amended: a task whose probe of the cache returns a record is fulfilled with the
  status \<^verbatim>\<open>cached\<close>, without a call of \<open>fetchWeekFn\<close> and with the state the probe left.
  Over the whole run there is one settled task per week number, and \<open>fetchWeekFn\<close> was
  called exactly on the weeks whose task did not end as \<^verbatim>\<open>cached\<close>. Every fulfilled task
  ends as \<^verbatim>\<open>cached\<close>, \<^verbatim>\<open>warmed\<close> or \<^verbatim>\<open>error\<close>, and when \<open>fetchWeekFn\<close> never rejects with
  \<^verbatim>\<open>null\<close> or \<^verbatim>\<open>undefined\<close> the numbers of tasks with these three statuses sum to the
  number of week numbers. No summary is returned: the function returns \<^verbatim>\<open>undefined\<close>, and
  the elapsed time is logged.
\<close>

theorem warm_skips_cached_and_counts:
  assumes "warmCache fetchWeekFn envOf startTime endTime weekNumbers s = (ret, lg, results, calls, s')"
  shows
    "(fst (getWeekFromCache e k s0) \<noteq> None \<longrightarrow>
        warmTask fetchWeekFn e k s0 =
          (Fulfilled (k, StatusCached), [], snd (getWeekFromCache e k s0))) \<and>
     length results = length weekNumbers \<and>
     calls = notCachedKeys weekNumbers results \<and>
     length (filter isCachedStatus results) + length (filter isWarmedStatus results) +
       length (filter isErrorStatus results) = length (filter isFulfilled results) \<and>
     ((\<forall>w s0. fst (fetchWeekFn w s0) \<noteq> Inl Nullish) \<longrightarrow>
        length (filter isCachedStatus results) + length (filter isWarmedStatus results) +
          length (filter isErrorStatus results) = length weekNumbers) \<and>
     ret = Undefined \<and>
     elapsed lg = endTime - startTime"
proof -
  obtain rs c s1 where ts: "warmTasks fetchWeekFn envOf weekNumbers s = (rs, c, s1)"
    by (cases "warmTasks fetchWeekFn envOf weekNumbers s") auto
  with assms have eq: "results = rs" "calls = c" "ret = Undefined"
    "elapsed lg = endTime - startTime"
    by (auto simp: warmCache_def Let_def)
  note r = warmTasks_results [OF ts]
  from r have sum: "(\<forall>w s0. fst (fetchWeekFn w s0) \<noteq> Inl Nullish) \<longrightarrow>
        length (filter isCachedStatus rs) + length (filter isWarmedStatus rs) +
          length (filter isErrorStatus rs) = length weekNumbers"
    by simp
  from r sum eq warmTask_cached [of e k s0 fetchWeekFn]
  show ?thesis by blast
qed

text \<open>Week 1 is in the durable tier and week 2 is not: week 1 ends as \<^verbatim>\<open>cached\<close>,
  \<open>fetchWeekFn\<close> is called on week 2 only, and nothing is returned.\<close>

theorem warm_skips_cached_and_counts_witness:
  "(\<forall>w s0. fst (freshFetch w s0) \<noteq> Inl Nullish) \<and>
   fst (getWeekFromCache (envAt 1) 1 (durableWeek 1 None)) \<noteq> None \<and>
   warmTask freshFetch (envAt 1) 1 (durableWeek 1 None) =
     (Fulfilled (1, StatusCached), [], snd (getWeekFromCache (envAt 1) 1 (durableWeek 1 None))) \<and>
   warmCache freshFetch envAt 0 5 [1, 2] (durableWeek 1 None) =
     (Undefined, \<lparr>elapsed = 5, successful = 2, failed = 0\<rparr>,
      [Fulfilled (1, StatusCached), Fulfilled (2, StatusWarmed)], [2],
      snd (snd (snd (snd (warmCache freshFetch envAt 0 5 [1, 2] (durableWeek 1 None)))))) \<and>
   notCachedKeys [1, 2] [Fulfilled (1, StatusCached), Fulfilled (2, StatusWarmed)] = [2] \<and>
   length (filter isCachedStatus [Fulfilled (1, StatusCached), Fulfilled (2, StatusWarmed)]) +
   length (filter isWarmedStatus [Fulfilled (1, StatusCached), Fulfilled (2, StatusWarmed)]) +
   length (filter isErrorStatus [Fulfilled (1, StatusCached), Fulfilled (2, StatusWarmed)]) =
     length [1, 2 :: int]"
proof -
  have n: "\<forall>w s0. fst (freshFetch w s0) \<noteq> Inl Nullish"
    by (simp add: freshFetch_def)
  have a: "warmCache freshFetch envAt 0 5 [1, 2] (durableWeek 1 None) =
     (Undefined, \<lparr>elapsed = 5, successful = 2, failed = 0\<rparr>,
      [Fulfilled (1, StatusCached), Fulfilled (2, StatusWarmed)], [2],
      snd (snd (snd (snd (warmCache freshFetch envAt 0 5 [1, 2] (durableWeek 1 None))))))"
    by (simp add: warmCache_def warmTask_def freshFetch_def isFulfilled_def isRejected_def
        key_eval example_eval lru_eval cache_eval)
  have b: "fst (getWeekFromCache (envAt 1) 1 (durableWeek 1 None)) \<noteq> None"
    by (simp add: key_eval example_eval lru_eval cache_eval)
  note t = warm_skips_cached_and_counts [OF a, of "envAt 1" 1 "durableWeek 1 None"]
  from t b have c1: "warmTask freshFetch (envAt 1) 1 (durableWeek 1 None) =
     (Fulfilled (1, StatusCached), [], snd (getWeekFromCache (envAt 1) 1 (durableWeek 1 None)))"
    by blast
  from t have c2: "[2] = notCachedKeys [1, 2] [Fulfilled (1, StatusCached), Fulfilled (2, StatusWarmed)]"
    by blast
  from t n have c3:
    "length (filter isCachedStatus [Fulfilled (1, StatusCached), Fulfilled (2, StatusWarmed)]) +
     length (filter isWarmedStatus [Fulfilled (1, StatusCached), Fulfilled (2, StatusWarmed)]) +
     length (filter isErrorStatus [Fulfilled (1, StatusCached), Fulfilled (2, StatusWarmed)]) =
       length [1, 2 :: int]"
    by blast
  from n b c1 a c2 [symmetric] c3 show ?thesis
    by (intro conjI)
qed

text \<open>Firestore unconfigured and nothing cached: the task of week 1, whose fetch rejects
  with \<^verbatim>\<open>undefined\<close>, is rejected and logs nothing; the task of week 2, whose fetch rejects
  with an error, is fulfilled with the status \<^verbatim>\<open>error\<close> and logs the message.\<close>

lemma warmCache_rejecting_fetch:
  "fst (snd (snd (warmCache rejectingFetch envDown 0 5 [1, 2] emptyCache))) =
     [Rejected ''TypeError'', Fulfilled (2, StatusError (Some ''boom''))] \<and>
   errorLog (snd (snd (snd (snd (warmCache rejectingFetch envDown 0 5 [1, 2] emptyCache))))) =
     [ErrWarm 2 (Some ''boom'')]"
  by (simp add: warmCache_def warmTask_def rejectingFetch_def
      key_eval example_eval lru_eval cache_eval)


section \<open>Batch generation of weeks\<close>

lemma succeeded_Nil [simp]: "succeeded [] = []"
  by (simp add: succeeded_def)

lemma succeeded_Cons_Inr [simp]: "succeeded ((k, Inr r) # outs) = r # succeeded outs"
  by (simp add: succeeded_def)

lemma succeeded_Cons_Inl [simp]: "succeeded ((k, Inl err) # outs) = succeeded outs"
  by (simp add: succeeded_def)

lemma filterBoolean_outcomes: "filterBoolean (map outcomeValue outs) = succeeded outs"
proof (induction outs)
  case Nil
  then show ?case by (simp add: filterBoolean_def)
next
  case (Cons x outs)
  obtain k v where x: "x = (k, v)" by (cases x)
  from Cons show ?case by (cases v) (simp_all add: x filterBoolean_def)
qed

lemma generateCached_outcomes:
  "generateCached sources envOf ks s =
     (map outcomeValue (fetchOutcomes sources envOf ErrCachedWeek ks s),
      fetchFinal sources envOf ErrCachedWeek ks s)"
  by (induction ks arbitrary: s) (auto split: prod.splits sum.splits)

lemma generateUncached_outcomes:
  "generateUncached sources envOf weeks ks s =
     (weeks @ succeeded (fetchOutcomes sources envOf ErrUncachedWeek ks s),
      fetchFinal sources envOf ErrUncachedWeek ks s)"
  by (induction ks arbitrary: s weeks) (auto split: prod.splits sum.splits)

lemma fetchOutcomes_keys: "map fst (fetchOutcomes sources envOf lg ks s) = ks"
  by (induction ks arbitrary: s) (auto split: prod.splits sum.splits)

lemma checkCacheStatus_partition:
  "checkCacheStatus envOf ks s = ((cached, uncached), s1) \<Longrightarrow>
   mset cached + mset uncached = mset ks"
proof (induction ks arbitrary: s cached uncached s1)
  case Nil
  then show ?case by simp
next
  case (Cons k ks)
  obtain v s0 where g: "getWeekFromCache (envOf k) k s = (v, s0)"
    by (cases "getWeekFromCache (envOf k) k s") auto
  obtain c u s2 where r: "checkCacheStatus envOf ks s0 = ((c, u), s2)"
    by (cases "checkCacheStatus envOf ks s0") auto
  from Cons.IH [OF r] have "mset c + mset u = mset ks" .
  with Cons.prems g r show ?case by (auto split: if_splits)
qed

lemma cached_branch:
  "(if length cached > 0 then
      (let (cachedWeeks, s') = generateCached sources envOf cached s1
       in ([] @ filterBoolean cachedWeeks, s'))
    else ([], s1)) =
   (succeeded (fetchOutcomes sources envOf ErrCachedWeek cached s1),
    fetchFinal sources envOf ErrCachedWeek cached s1)"
proof (cases cached)
  case Nil
  then show ?thesis by simp
next
  case (Cons k ks)
  then have "length cached > 0" by simp
  then show ?thesis
    by (simp only: if_True generateCached_outcomes Let_def prod.case filterBoolean_outcomes
        append_Nil)
qed

lemma uncached_branch:
  "(if length uncached > 0 then generateUncached sources envOf weeks uncached s2
    else (weeks, s2)) =
   (weeks @ succeeded (fetchOutcomes sources envOf ErrUncachedWeek uncached s2),
    fetchFinal sources envOf ErrUncachedWeek uncached s2)"
proof (cases uncached)
  case Nil
  then show ?thesis by simp
next
  case (Cons k ks)
  then have "length uncached > 0" by simp
  then show ?thesis by (simp only: if_True generateUncached_outcomes)
qed

lemma succeeded_append: "succeeded (xs @ ys) = succeeded xs @ succeeded ys"
  by (simp add: succeeded_def)

text \<open>
  C7: \<^verbatim>\<open>generateWeeks\<close> probes the window of \<open>cnt\<close> week numbers from \<open>offset\<close>, which
  splits it into the cached and the uncached weeks, every week of the window in one of
  the two. Each week of both subsets is fetched once, a failure is logged and the loop
  goes on (\<open>fetchOutcomes\<close> has one outcome per week). The weeks returned are exactly the
  records of the fetches that succeeded, those of the failed ones dropped, sorted in
  ascending order of their \<^verbatim>\<open>weekNumber\<close>.
\<close>

theorem generateWeeks_returns_sorted_successes:
  assumes "generateWeeks sources probeEnv cachedEnv uncachedEnv cnt offset s = (weeks, s')"
  shows
    "\<exists>cached uncached s1 s2 outs.
        checkCacheStatus probeEnv (weekWindow cnt offset) s = ((cached, uncached), s1) \<and>
        mset cached + mset uncached = mset (weekWindow cnt offset) \<and>
        s2 = fetchFinal sources cachedEnv ErrCachedWeek cached s1 \<and>
        outs = fetchOutcomes sources cachedEnv ErrCachedWeek cached s1 @
               fetchOutcomes sources uncachedEnv ErrUncachedWeek uncached s2 \<and>
        map fst outs = cached @ uncached \<and>
        weeks = sort_key (\<lambda>a. weekNumber (payload a)) (succeeded outs) \<and>
        mset weeks = mset (succeeded outs) \<and>
        sorted (map (\<lambda>a. weekNumber (payload a)) weeks) \<and>
        s' = fetchFinal sources uncachedEnv ErrUncachedWeek uncached s2"
proof -
  obtain cached uncached s1
    where c: "checkCacheStatus probeEnv (weekWindow cnt offset) s = ((cached, uncached), s1)"
    by (cases "checkCacheStatus probeEnv (weekWindow cnt offset) s") auto
  let ?s2 = "fetchFinal sources cachedEnv ErrCachedWeek cached s1"
  let ?o1 = "fetchOutcomes sources cachedEnv ErrCachedWeek cached s1"
  let ?o2 = "fetchOutcomes sources uncachedEnv ErrUncachedWeek uncached ?s2"
  have res: "weeks = sort_key (\<lambda>a. weekNumber (payload a)) (succeeded (?o1 @ ?o2)) \<and>
             s' = fetchFinal sources uncachedEnv ErrUncachedWeek uncached ?s2"
    using assms
    unfolding generateWeeks_def Let_def c prod.case cached_branch [unfolded Let_def]
      uncached_branch succeeded_append
    by simp
  have part: "mset cached + mset uncached = mset (weekWindow cnt offset)"
    using c by (rule checkCacheStatus_partition)
  have keys: "map fst (?o1 @ ?o2) = cached @ uncached"
    by (simp add: fetchOutcomes_keys)
  from res have ms: "mset weeks = mset (succeeded (?o1 @ ?o2))" by simp
  from res have so: "sorted (map (\<lambda>a. weekNumber (payload a)) weeks)" by simp
  from c part keys res ms so show ?thesis by blast
qed

text \<open>Weeks 0 to 3 with week 1 in the durable tier and the sources failing for week 2:
  week 1 is fetched first, as the cached subset, then weeks 0 and 3; week 2 is dropped
  and logged, and the result is in the order 0, 1, 3.\<close>

theorem generateWeeks_returns_sorted_successes_witness:
  "map (\<lambda>a. weekNumber (payload a))
     (fst (generateWeeks sourcesFailing2 envAt envAt envAt 4 0 weekOneStored)) = [0, 1, 3] \<and>
   errorLog (snd (generateWeeks sourcesFailing2 envAt envAt envAt 4 0 weekOneStored)) =
     [ErrUncachedWeek 2 ''rate limited''] \<and>
   fst (checkCacheStatus envAt (weekWindow 4 0) weekOneStored) = ([1], [0, 2, 3]) \<and>
   sorted (map (\<lambda>a. weekNumber (payload a))
     (fst (generateWeeks sourcesFailing2 envAt envAt envAt 4 0 weekOneStored)))"
proof -
  have w: "weekWindow 4 0 = [0, 1, 2, 3]"
    by (simp add: weekWindow_def upt_rec)
  have c: "fst (checkCacheStatus envAt (weekWindow 4 0) weekOneStored) = ([1], [0, 2, 3])"
    by (simp add: w weekOneStored_def key_eval example_eval lru_eval cache_eval)
  have g: "map (\<lambda>a. weekNumber (payload a))
      (fst (generateWeeks sourcesFailing2 envAt envAt envAt 4 0 weekOneStored)) = [0, 1, 3] \<and>
    errorLog (snd (generateWeeks sourcesFailing2 envAt envAt envAt 4 0 weekOneStored)) =
      [ErrUncachedWeek 2 ''rate limited'']"
    by (simp add: generateWeeks_def generateWeekData_def filterBoolean_def sourcesFailing2_def
        w weekOneStored_def key_eval example_eval lru_eval cache_eval)
  have "generateWeeks sourcesFailing2 envAt envAt envAt 4 0 weekOneStored =
      (fst (generateWeeks sourcesFailing2 envAt envAt envAt 4 0 weekOneStored),
       snd (generateWeeks sourcesFailing2 envAt envAt envAt 4 0 weekOneStored))"
    by simp
  from generateWeeks_returns_sorted_successes [OF this]
  have "sorted (map (\<lambda>a. weekNumber (payload a))
     (fst (generateWeeks sourcesFailing2 envAt envAt envAt 4 0 weekOneStored)))"
    by blast
  with c g show ?thesis by blast
qed

end
